theory Spec2Isabelle
  imports Main "HOL-Library.AList"
begin

section \<open>Data model of \<open>shadowsocks/mdb/models.py\<close>\<close>

text \<open>
  The two peewee models \<open>User\<close> (desired configuration) and \<open>UserServer\<close> (snapshot of
  the configuration a tenant was last started with) share the fields \<open>user_id\<close>,
  \<open>port\<close>, \<open>method\<close>, \<open>password\<close> and \<open>enable\<close>; \<open>User\<close> adds \<open>speed_limit\<close>.
  The record of \<open>User\<close> therefore extends the one of \<open>UserServer\<close>, and a field selector
  such as \<open>port\<close> reads either of them, as \<open>getattr(self, field)\<close> and
  \<open>getattr(user, field)\<close> do in \<open>check_user_server\<close>.
\<close>

type_synonym uid = int

record user_server =
  user_id :: uid
  port :: int
  "method" :: string
  password :: string
  enable :: bool

record user = user_server +
  speed_limit :: int

text \<open>
  A listener handle (the \<open>asyncio\<close> server returned by \<open>create_server\<close>, the transport
  returned by \<open>create_datagram_endpoint\<close>) is an object; only its identity and the calls
  of its \<open>close()\<close> method matter here. A handle is its identity, a number. Neither class
  defines \<open>__bool__\<close> or \<open>__len__\<close>, so every handle is truthy.
\<close>

type_synonym handle = nat

text \<open>
  An item of \<open>__running_servers__\<close> is a dict that holds at most the keys \<open>"tcp"\<close> and
  \<open>"udp"\<close>; a field is \<open>None\<close> when the key is absent.
\<close>

record server_data =
  tcp :: "handle option"
  udp :: "handle option"

text \<open>
  An item of \<open>__user_metrics__\<close> is a dict that holds at most the keys of
  \<open>METRIC_FIELDS\<close>; the dict that \<open>defaultdict(dict)\<close> creates on a missing key holds none
  of them.
\<close>

record metric =
  upload_traffic :: "int option"
  download_traffic :: "int option"
  ip_list :: "string set option"

text \<open>
  Modelled from the spec: the classes \<open>TrafficRateLimit\<close> and \<open>TcpConnRateLimit\<close> of
  \<open>shadowsocks.ratelimit\<close> are not part of the source given. The spec describes a throughput
  limiter seeded with \<open>speed_limit\<close> and a connection limiter seeded with a process-wide
  ceiling, whose live connection count \<open>tcp_conn_num\<close> the source reads. No theorem below
  depends on the value a fresh limiter starts with.
\<close>

record traffic_limiter =
  capacity :: int
  cur_rate :: int

record tcp_limiter =
  tcp_conn_limit :: int
  tcp_conn_num :: int

definition TrafficRateLimit :: "int \<Rightarrow> traffic_limiter" where
  "TrafficRateLimit c = \<lparr>capacity = c, cur_rate = 0\<rparr>"

definition TcpConnRateLimit :: "int \<Rightarrow> tcp_limiter" where
  "TcpConnRateLimit c = \<lparr>tcp_conn_limit = c, tcp_conn_num = 0\<rparr>"

text \<open>An item of \<open>__user_limiters__\<close>: a dict with at most the keys \<open>"traffic"\<close> and \<open>"tcp"\<close>.\<close>

record limiter_data =
  traffic_lim :: "traffic_limiter option"
  tcp_lim :: "tcp_limiter option"

text \<open>One element of the \<open>data\<close> list that \<open>flush_metrics_to_remote\<close> posts.\<close>

record report =
  r_user_id :: uid
  r_upload_traffic :: int
  r_download_traffic :: int
  r_ip_list :: "string set"
  r_tcp_conn_num :: int

text \<open>The records that the \<open>logging\<close> calls of \<open>UserServer\<close> write.\<close>

datatype log_entry =
    Info_started user
  | Info_closed uid int
  | Warning_OSError

text \<open>The exceptions that the modelled methods raise.\<close>

datatype error = KeyError | AttributeError | DoesNotExist | RequestFailed

text \<open>
  The state of the process: the four class attributes of \<open>UserServer\<close>, its database table,
  and what the outside world observes (calls of \<open>close()\<close> on handles, log records, bodies
  posted to the metrics sink, handles created so far).

  \<^item> \<open>running_servers\<close>, \<open>user_limiters\<close>: a \<open>defaultdict(dict)\<close> that is never iterated,
    modelled as a map;
  \<^item> \<open>user_metrics\<close>: a \<open>defaultdict(dict)\<close> that \<open>flush_metrics_to_remote\<close> iterates in
    insertion order, modelled as an association list with distinct keys;
  \<^item> \<open>user_server_table\<close>: the rows of the table of \<open>UserServer\<close> in the order
    \<open>select()\<close> returns them, at most one per \<open>user_id\<close> (its primary key).
\<close>

record state =
  running_servers :: "uid \<rightharpoonup> server_data"
  user_metrics :: "(uid \<times> metric) list"
  user_limiters :: "uid \<rightharpoonup> limiter_data"
  active_user_ids :: "uid list"
  user_server_table :: "user_server list"
  close_calls :: "handle list"
  logged :: "log_entry list"
  requests :: "report list list"
  next_handle :: handle

definition init_state :: state where
  "init_state = \<lparr>running_servers = Map.empty, user_metrics = [], user_limiters = Map.empty,
     active_user_ids = [], user_server_table = [], close_calls = [], logged = [],
     requests = [], next_handle = 0\<rparr>"

section \<open>The registry of listener handles\<close>

text \<open>\<open>is_running\<close>: \<open>self.user_id in self.__running_servers__\<close>; a membership test does
  not create the item.\<close>

definition is_running :: "state \<Rightarrow> uid \<Rightarrow> bool" where
  "is_running s u = (running_servers s u \<noteq> None)"

text \<open>\<open>self.__running_servers__[self.user_id]\<close>: subscripting a \<open>defaultdict(dict)\<close> at a
  missing key stores an empty dict there and returns it.\<close>

definition running_servers_getitem :: "uid \<Rightarrow> state \<Rightarrow> server_data \<times> state" where
  "running_servers_getitem u s =
     (case running_servers s u of
        Some d \<Rightarrow> (d, s)
      | None \<Rightarrow> (\<lparr>tcp = None, udp = None\<rparr>,
                 s\<lparr>running_servers := (running_servers s)(u \<mapsto> \<lparr>tcp = None, udp = None\<rparr>)\<rparr>))"

text \<open>The getters \<open>tcp_server\<close> and \<open>udp_server\<close>:
  \<open>self.__running_servers__[self.user_id].get("tcp")\<close>.\<close>

definition tcp_server :: "uid \<Rightarrow> state \<Rightarrow> handle option \<times> state" where
  "tcp_server u s = (let (d, s') = running_servers_getitem u s in (tcp d, s'))"

definition udp_server :: "uid \<Rightarrow> state \<Rightarrow> handle option \<times> state" where
  "udp_server u s = (let (d, s') = running_servers_getitem u s in (udp d, s'))"

text \<open>\<open>handle.close()\<close>, recorded in the trace of close calls.\<close>

definition close :: "handle \<Rightarrow> state \<Rightarrow> state" where
  "close h s = s\<lparr>close_calls := close_calls s @ [h]\<rparr>"

text \<open>
  The setters \<open>tcp_server\<close> and \<open>udp_server\<close>. The condition \<open>self.tcp_server\<close> reads the
  item through the getter (which creates it when missing); when a handle is registered,
  \<open>self.tcp_server.close()\<close> reads the same item again and closes that handle. Then
  \<open>self.__running_servers__[self.user_id]["tcp"] = server\<close> stores the new one.
\<close>

definition set_tcp_server :: "uid \<Rightarrow> handle \<Rightarrow> state \<Rightarrow> state" where
  "set_tcp_server u server s =
     (let (cur, s1) = tcp_server u s;
          s2 = (case cur of None \<Rightarrow> s1 | Some h \<Rightarrow> close h s1);
          (d, s3) = running_servers_getitem u s2
      in s3\<lparr>running_servers := (running_servers s3)(u \<mapsto> d\<lparr>tcp := Some server\<rparr>)\<rparr>)"

definition set_udp_server :: "uid \<Rightarrow> handle \<Rightarrow> state \<Rightarrow> state" where
  "set_udp_server u server s =
     (let (cur, s1) = udp_server u s;
          s2 = (case cur of None \<Rightarrow> s1 | Some h \<Rightarrow> close h s1);
          (d, s3) = running_servers_getitem u s2
      in s3\<lparr>running_servers := (running_servers s3)(u \<mapsto> d\<lparr>udp := Some server\<rparr>)\<rparr>)"

text \<open>A run of installs for one tenant, as successive restarts perform them.\<close>

fun install_tcp_all :: "uid \<Rightarrow> handle list \<Rightarrow> state \<Rightarrow> state" where
  "install_tcp_all u [] s = s"
| "install_tcp_all u (h # hs) s = install_tcp_all u hs (set_tcp_server u h s)"

fun install_udp_all :: "uid \<Rightarrow> handle list \<Rightarrow> state \<Rightarrow> state" where
  "install_udp_all u [] s = s"
| "install_udp_all u (h # hs) s = install_udp_all u hs (set_udp_server u h s)"

section \<open>Metrics and limiters\<close>

definition init_new_metric :: metric where
  "init_new_metric = \<lparr>upload_traffic = Some 0, download_traffic = Some 0, ip_list = Some {}\<rparr>"

definition empty_metric :: metric where
  "empty_metric = \<lparr>upload_traffic = None, download_traffic = None, ip_list = None\<rparr>"

text \<open>\<open>dict.update(data)\<close>: every key of \<open>data\<close> is stored, the other keys stay.\<close>

definition dict_update :: "metric \<Rightarrow> metric \<Rightarrow> metric" where
  "dict_update m data =
     \<lparr>upload_traffic = (case upload_traffic data of Some v \<Rightarrow> Some v | None \<Rightarrow> upload_traffic m),
      download_traffic = (case download_traffic data of Some v \<Rightarrow> Some v | None \<Rightarrow> download_traffic m),
      ip_list = (case ip_list data of Some v \<Rightarrow> Some v | None \<Rightarrow> ip_list m)\<rparr>"

text \<open>The getter \<open>metrics\<close>: \<open>self.__user_metrics__[self.user_id]\<close>; a missing key gets an
  empty dict, stored after the items already there.\<close>

definition metrics :: "uid \<Rightarrow> state \<Rightarrow> metric \<times> state" where
  "metrics u s =
     (case map_of (user_metrics s) u of
        Some m \<Rightarrow> (m, s)
      | None \<Rightarrow> (empty_metric, s\<lparr>user_metrics := user_metrics s @ [(u, empty_metric)]\<rparr>))"

text \<open>The setter \<open>metrics\<close>: \<open>self.__user_metrics__[self.user_id].update(data)\<close>.\<close>

definition set_metrics :: "uid \<Rightarrow> metric \<Rightarrow> state \<Rightarrow> state" where
  "set_metrics u data s =
     (let (m, s1) = metrics u s
      in s1\<lparr>user_metrics := AList.update u (dict_update m data) (user_metrics s1)\<rparr>)"

definition user_limiters_getitem :: "uid \<Rightarrow> state \<Rightarrow> limiter_data \<times> state" where
  "user_limiters_getitem u s =
     (case user_limiters s u of
        Some d \<Rightarrow> (d, s)
      | None \<Rightarrow> (\<lparr>traffic_lim = None, tcp_lim = None\<rparr>,
                 s\<lparr>user_limiters := (user_limiters s)(u \<mapsto> \<lparr>traffic_lim = None, tcp_lim = None\<rparr>)\<rparr>))"

definition tcp_limiter_get :: "uid \<Rightarrow> state \<Rightarrow> tcp_limiter option \<times> state" where
  "tcp_limiter_get u s = (let (d, s') = user_limiters_getitem u s in (tcp_lim d, s'))"

definition set_traffic_limiter :: "uid \<Rightarrow> traffic_limiter \<Rightarrow> state \<Rightarrow> state" where
  "set_traffic_limiter u limiter s =
     (let (d, s1) = user_limiters_getitem u s
      in s1\<lparr>user_limiters := (user_limiters s1)(u \<mapsto> d\<lparr>traffic_lim := Some limiter\<rparr>)\<rparr>)"

definition set_tcp_limiter :: "uid \<Rightarrow> tcp_limiter \<Rightarrow> state \<Rightarrow> state" where
  "set_tcp_limiter u limiter s =
     (let (d, s1) = user_limiters_getitem u s
      in s1\<lparr>user_limiters := (user_limiters s1)(u \<mapsto> d\<lparr>tcp_lim := Some limiter\<rparr>)\<rparr>)"

text \<open>
  \<open>record_traffic\<close>: each \<open>self.metrics[k] += n\<close> reads the dict through the getter, reads
  key \<open>k\<close> (a \<open>KeyError\<close> when the dict lacks it), adds, and stores the sum under \<open>k\<close>.
  Python integers are unbounded, hence \<open>int\<close>.
\<close>

definition record_traffic :: "uid \<Rightarrow> int \<Rightarrow> int \<Rightarrow> state \<Rightarrow> (error + unit) \<times> state" where
  "record_traffic u used_u used_d s =
     (let (m, s1) = metrics u s in
      case upload_traffic m of
        None \<Rightarrow> (Inl KeyError, s1)
      | Some v \<Rightarrow>
          (let s2 = s1\<lparr>user_metrics :=
                      AList.update u (m\<lparr>upload_traffic := Some (v + used_u)\<rparr>) (user_metrics s1)\<rparr>;
               (m2, s3) = metrics u s2 in
           case download_traffic m2 of
             None \<Rightarrow> (Inl KeyError, s3)
           | Some w \<Rightarrow>
               (Inr (), s3\<lparr>user_metrics :=
                      AList.update u (m2\<lparr>download_traffic := Some (w + used_d)\<rparr>) (user_metrics s3)\<rparr>)))"

section \<open>The record store\<close>

text \<open>
  Modelled from the spec: \<open>BaseModel\<close> (\<open>get_by_id\<close>, \<open>get_or_create\<close>, \<open>to_dict\<close>,
  \<open>update_from_dict\<close>, \<open>save\<close>) is peewee and code of \<open>shadowsocks.mdb\<close> that is not part of
  the source given. The spec describes a store keyed by tenant id with get,
  get-or-create-with-defaults and update, and a live snapshot \<open>{method, password, port,
  enabled}\<close> persisted on start.
\<close>

definition get_by_id :: "uid \<Rightarrow> state \<Rightarrow> user_server option" where
  "get_by_id u s = find (\<lambda>r. user_id r = u) (user_server_table s)"

definition get_or_create :: "uid \<Rightarrow> user_server \<Rightarrow> state \<Rightarrow> user_server \<times> state" where
  "get_or_create u defaults s =
     (case get_by_id u s of
        Some r \<Rightarrow> (r, s)
      | None \<Rightarrow> (defaults\<lparr>user_id := u\<rparr>,
                 s\<lparr>user_server_table := user_server_table s @ [defaults\<lparr>user_id := u\<rparr>]\<rparr>))"

definition update_from_dict :: "user_server \<Rightarrow> user \<Rightarrow> user_server" where
  "update_from_dict self data =
     self\<lparr>port := port data, method := method data, password := password data,
          enable := enable data\<rparr>"

definition save :: "user_server \<Rightarrow> state \<Rightarrow> state" where
  "save self s =
     s\<lparr>user_server_table :=
         map (\<lambda>r. if user_id r = user_id self then self else r) (user_server_table s)\<rparr>"

section \<open>Lifecycle\<close>

text \<open>
  \<open>close_server\<close>: returns when the tenant has no item in \<open>__running_servers__\<close>; otherwise
  pops the item, closes \<open>server_data["tcp"]\<close> and \<open>server_data["udp"]\<close> (a \<open>KeyError\<close> when
  the item lacks the key) and logs.
\<close>

definition close_server :: "user_server \<Rightarrow> state \<Rightarrow> (error + unit) \<times> state" where
  "close_server self s =
     (case running_servers s (user_id self) of
        None \<Rightarrow> (Inr (), s)
      | Some server_data \<Rightarrow>
          (let s1 = s\<lparr>running_servers := (running_servers s)(user_id self := None)\<rparr> in
           case tcp server_data of
             None \<Rightarrow> (Inl KeyError, s1)
           | Some t \<Rightarrow>
               (let s2 = close t s1 in
                case udp server_data of
                  None \<Rightarrow> (Inl KeyError, s2)
                | Some d \<Rightarrow>
                    (Inr (), (close d s2)\<lparr>logged :=
                       logged s2 @ [Info_closed (user_id self) (port self)]\<rparr>))))"

text \<open>
  \<open>check_user_server\<close>: the loop over \<open>["method", "port", "password"]\<close>, unrolled. At the
  first field whose values differ, or at the first field when \<open>user.enable is False\<close>, it
  closes the server and returns. \<open>enable\<close> is a \<open>BooleanField\<close>, so \<open>user.enable is False\<close>
  is \<open>\<not> enable user\<close>.
\<close>

definition check_user_server :: "user_server \<Rightarrow> user \<Rightarrow> state \<Rightarrow> (error + unit) \<times> state" where
  "check_user_server self user s =
     (if method self \<noteq> method user \<or> \<not> enable user then close_server self s
      else if port self \<noteq> port user \<or> \<not> enable user then close_server self s
      else if password self \<noteq> password user \<or> \<not> enable user then close_server self s
      else (Inr (), s))"

text \<open>
  What the two awaited binds of \<open>init_server\<close> do is decided outside the program: both
  succeed, \<open>create_server\<close> raises \<open>OSError\<close>, or \<open>create_server\<close> succeeds and
  \<open>create_datagram_endpoint\<close> raises \<open>OSError\<close>. Every object created is a handle that did
  not exist before: \<open>next_handle\<close> counts them.
\<close>

datatype bind_outcome = Bound | Tcp_OSError | Udp_OSError

text \<open>
  The body of the \<open>try\<close> block of \<open>init_server\<close> when both binds succeed: the two new
  handles are registered, fresh limiters are stored, the metrics are set to
  \<open>init_new_metric()\<close>, the row takes the fields of \<open>user\<close> and is saved, and the start is
  logged. The argument \<open>limit\<close> is \<open>current_app.user_tcp_conn_limit\<close>.
\<close>

definition bound_state :: "user_server \<Rightarrow> user \<Rightarrow> int \<Rightarrow> state \<Rightarrow> state" where
  "bound_state self user limit s1 =
     (let tcp_h = next_handle s1;
          udp_h = Suc (next_handle s1);
          s2 = s1\<lparr>next_handle := Suc (Suc (next_handle s1))\<rparr>;
          s3 = set_tcp_server (user_id self) tcp_h s2;
          s4 = set_udp_server (user_id self) udp_h s3;
          s5 = set_traffic_limiter (user_id self) (TrafficRateLimit (speed_limit user)) s4;
          s6 = set_tcp_limiter (user_id self) (TcpConnRateLimit limit) s5;
          s7 = set_metrics (user_id self) init_new_metric s6;
          s8 = save (update_from_dict self user) s7
      in s8\<lparr>logged := logged s8 @ [Info_started user]\<rparr>)"

text \<open>
  \<open>init_server\<close>. An \<open>OSError\<close> of a bind is caught and logged; any other exception (the
  \<open>KeyError\<close> of \<open>close_server\<close>) leaves the method. When the second bind fails, the handle
  that the first one created is neither registered nor closed.
\<close>

definition init_server ::
  "user_server \<Rightarrow> user \<Rightarrow> bind_outcome \<Rightarrow> int \<Rightarrow> state \<Rightarrow> (error + unit) \<times> state" where
  "init_server self user outcome limit s =
     (case (if is_running s (user_id self) then check_user_server self user s else (Inr (), s)) of
        (Inl e, s1) \<Rightarrow> (Inl e, s1)
      | (Inr _, s1) \<Rightarrow>
          if is_running s1 (user_id self) \<or> \<not> enable user then (Inr (), s1)
          else
            (case outcome of
               Tcp_OSError \<Rightarrow> (Inr (), s1\<lparr>logged := logged s1 @ [Warning_OSError]\<rparr>)
             | Udp_OSError \<Rightarrow>
                 (Inr (), s1\<lparr>next_handle := Suc (next_handle s1),
                             logged := logged s1 @ [Warning_OSError]\<rparr>)
             | Bound \<Rightarrow> (Inr (), bound_state self user limit s1)))"

text \<open>
  \<open>User.init_user_servers\<close>: for every row of \<open>User\<close>, get or create the row of
  \<open>UserServer\<close> (defaults: the fields of the user) and schedule \<open>init_server\<close> as a task.
  The tasks are run here one after the other, in the order of their creation; a task
  reads and writes the items of its own \<open>user_id\<close> only. An exception that leaves a task
  stays in that task: the sweep goes on.
\<close>

fun init_user_servers :: "(user \<Rightarrow> bind_outcome) \<Rightarrow> int \<Rightarrow> user list \<Rightarrow> state \<Rightarrow> state" where
  "init_user_servers bind limit [] s = s"
| "init_user_servers bind limit (user # users) s =
     (let (us, s1) = get_or_create (user_id user) (user_server.truncate user) s;
          (r, s2) = init_server us user (bind user) limit s1
      in init_user_servers bind limit users s2)"

section \<open>Flushing metrics\<close>

text \<open>
  The first loop of \<open>flush_metrics_to_remote\<close>, over the items of \<open>__user_metrics__\<close>:
  \<open>data\<close> and \<open>need_reset_user_ids\<close> are the lists built so far. Reading a key the dict
  lacks raises \<open>KeyError\<close>, \<open>get_by_id\<close> raises \<open>DoesNotExist\<close> when there is no row, and
  \<open>.tcp_conn_num\<close> raises \<open>AttributeError\<close> when the getter \<open>tcp_limiter\<close> returned \<open>None\<close>.
\<close>

fun flush_loop ::
  "(uid \<times> metric) list \<Rightarrow> report list \<Rightarrow> uid list \<Rightarrow> state \<Rightarrow>
     (error + report list \<times> uid list) \<times> state" where
  "flush_loop [] data need_reset_user_ids s = (Inr (data, need_reset_user_ids), s)"
| "flush_loop ((u, m) # items) data need_reset_user_ids s =
     (case upload_traffic m of
        None \<Rightarrow> (Inl KeyError, s)
      | Some up \<Rightarrow>
     (case download_traffic m of
        None \<Rightarrow> (Inl KeyError, s)
      | Some down \<Rightarrow>
          if up + down > 0 then
            (case ip_list m of
               None \<Rightarrow> (Inl KeyError, s)
             | Some ips \<Rightarrow>
            (case get_by_id u s of
               None \<Rightarrow> (Inl DoesNotExist, s)
             | Some us \<Rightarrow>
            (case tcp_limiter_get (user_id us) s of
               (None, s1) \<Rightarrow> (Inl AttributeError, s1)
             | (Some limiter, s1) \<Rightarrow>
                 flush_loop items
                   (data @ [\<lparr>r_user_id = u, r_upload_traffic = up, r_download_traffic = down,
                              r_ip_list = ips, r_tcp_conn_num = tcp_conn_num limiter\<rparr>])
                   (need_reset_user_ids @ [u]) s1)))
          else flush_loop items data need_reset_user_ids s))"

text \<open>The second loop: \<open>cls.__user_metrics__[user_id].update(cls.init_new_metric())\<close>.\<close>

fun reset_loop :: "uid list \<Rightarrow> state \<Rightarrow> state" where
  "reset_loop [] s = s"
| "reset_loop (u # us) s = reset_loop us (set_metrics u init_new_metric s)"

text \<open>
  \<open>flush_metrics_to_remote\<close>. The request is recorded in \<open>requests\<close> whether or not it is
  delivered; \<open>delivered\<close> says whether \<open>http_session.request\<close> returns (its result is not
  looked at) or raises. The \<open>ip_list\<close> of a report holds the elements of the set; the order
  in which \<open>list(...)\<close> enumerates them is not modelled.
\<close>

definition flush_metrics_to_remote :: "bool \<Rightarrow> state \<Rightarrow> (error + unit) \<times> state" where
  "flush_metrics_to_remote delivered s =
     (case flush_loop (user_metrics s) [] [] s of
        (Inl e, s1) \<Rightarrow> (Inl e, s1)
      | (Inr (data, need_reset_user_ids), s1) \<Rightarrow>
          (let s2 = s1\<lparr>requests := requests s1 @ [data]\<rparr> in
           if \<not> delivered then (Inl RequestFailed, s2)
           else (Inr (), (reset_loop need_reset_user_ids s2)
                           \<lparr>active_user_ids := need_reset_user_ids\<rparr>)))"

text \<open>
  \<open>get_total_connection_count\<close>: the rows whose \<open>user_id\<close> is in \<open>__active_user_ids__\<close>, and
  the sum of the \<open>tcp_conn_num\<close> of their connection limiters.
\<close>

fun count_loop :: "user_server list \<Rightarrow> int \<Rightarrow> state \<Rightarrow> (error + int) \<times> state" where
  "count_loop [] cnt s = (Inr cnt, s)"
| "count_loop (us # rows) cnt s =
     (case tcp_limiter_get (user_id us) s of
        (None, s1) \<Rightarrow> (Inl AttributeError, s1)
      | (Some limiter, s1) \<Rightarrow> count_loop rows (cnt + tcp_conn_num limiter) s1)"

definition get_total_connection_count :: "state \<Rightarrow> (error + int) \<times> state" where
  "get_total_connection_count s =
     count_loop (filter (\<lambda>us. user_id us \<in> set (active_user_ids s)) (user_server_table s)) 0 s"

section \<open>Example configurations and states\<close>

text \<open>Two tenants, and the states that the modelled operations reach with them: after a
  sweep that starts the first, after a sweep that starts both, after traffic of one of
  them, and after a delivered flush.\<close>

definition alice :: user where
  "alice = \<lparr>user_id = 1, port = 8388, method = ''aes-256-cfb'', password = ''old'',
     enable = True, speed_limit = 0\<rparr>"

definition bob :: user where
  "bob = \<lparr>user_id = 2, port = 8389, method = ''aes-256-cfb'', password = ''bob'',
     enable = True, speed_limit = 0\<rparr>"

definition alice_live :: state where
  "alice_live = init_user_servers (\<lambda>_. Bound) 100 [alice] init_state"

definition both_live :: state where
  "both_live = init_user_servers (\<lambda>_. Bound) 100 [alice, bob] init_state"

definition alice_busy :: state where
  "alice_busy = snd (record_traffic 1 10 20 alice_live)"

definition bob_busy :: state where
  "bob_busy = snd (record_traffic 2 100 0 both_live)"

definition bob_idle :: state where
  "bob_idle = snd (flush_metrics_to_remote True bob_busy)"

text \<open>The state after a delivered flush and a \<open>record_traffic\<close> on a third tenant that
  was never started.\<close>

definition bob_idle_unstarted :: state where
  "bob_idle_unstarted = snd (record_traffic 3 10 20 bob_idle)"

section \<open>Notions used in the statements\<close>

text \<open>A metrics dict with both counters whose sum is positive: the condition under which
  \<open>flush_metrics_to_remote\<close> reports a tenant.\<close>

definition has_traffic :: "metric \<Rightarrow> bool" where
  "has_traffic m =
     (case (upload_traffic m, download_traffic m) of
        (Some up, Some down) \<Rightarrow> up + down > 0
      | _ \<Rightarrow> False)"

text \<open>A metrics dict with both counters whose sum is not positive.\<close>

definition no_traffic :: "metric \<Rightarrow> bool" where
  "no_traffic m =
     (case (upload_traffic m, download_traffic m) of
        (Some up, Some down) \<Rightarrow> up + down \<le> 0
      | _ \<Rightarrow> False)"

text \<open>The tenants with positive traffic, in the order of \<open>__user_metrics__\<close>.\<close>

definition flushed_ids :: "state \<Rightarrow> uid list" where
  "flushed_ids s = map fst (filter (\<lambda>(u, m). has_traffic m) (user_metrics s))"

text \<open>A report carries the id, the counters and the addresses of an item of
  \<open>__user_metrics__\<close> and the connection count of that tenant's limiter.\<close>

definition is_report_of :: "state \<Rightarrow> report \<Rightarrow> uid \<times> metric \<Rightarrow> bool" where
  "is_report_of s r item =
     (r_user_id r = fst item \<and>
      upload_traffic (snd item) = Some (r_upload_traffic r) \<and>
      download_traffic (snd item) = Some (r_download_traffic r) \<and>
      ip_list (snd item) = Some (r_ip_list r) \<and>
      (case user_limiters s (fst item) of
         None \<Rightarrow> False
       | Some d \<Rightarrow> (case tcp_lim d of None \<Rightarrow> False | Some l \<Rightarrow> r_tcp_conn_num r = tcp_conn_num l)))"

text \<open>Every item of \<open>__running_servers__\<close> holds both handles. \<open>close_server\<close> relies on
  it: it reads both keys of the item it pops.\<close>

definition entries_complete :: "state \<Rightarrow> bool" where
  "entries_complete s =
     (\<forall>u d. running_servers s u = Some d \<longrightarrow> tcp d \<noteq> None \<and> udp d \<noteq> None)"

text \<open>Every registered handle was created before: the next handle created is a new one.\<close>

definition handles_below :: "state \<Rightarrow> bool" where
  "handles_below s =
     (\<forall>u d h. running_servers s u = Some d \<longrightarrow> tcp d = Some h \<or> udp d = Some h \<longrightarrow>
        h < next_handle s)"

section \<open>Properties of the registry\<close>

lemma set_tcp_server_eq:
  "set_tcp_server u h s =
     (case running_servers s u of
        None \<Rightarrow> s\<lparr>running_servers := (running_servers s)(u \<mapsto> \<lparr>tcp = Some h, udp = None\<rparr>)\<rparr>
      | Some d \<Rightarrow>
          s\<lparr>running_servers := (running_servers s)(u \<mapsto> d\<lparr>tcp := Some h\<rparr>),
            close_calls := close_calls s @ (case tcp d of None \<Rightarrow> [] | Some old \<Rightarrow> [old])\<rparr>)"
  by (auto simp: set_tcp_server_def tcp_server_def running_servers_getitem_def close_def
      split: option.splits)

lemma set_udp_server_eq:
  "set_udp_server u h s =
     (case running_servers s u of
        None \<Rightarrow> s\<lparr>running_servers := (running_servers s)(u \<mapsto> \<lparr>tcp = None, udp = Some h\<rparr>)\<rparr>
      | Some d \<Rightarrow>
          s\<lparr>running_servers := (running_servers s)(u \<mapsto> d\<lparr>udp := Some h\<rparr>),
            close_calls := close_calls s @ (case udp d of None \<Rightarrow> [] | Some old \<Rightarrow> [old])\<rparr>)"
  by (auto simp: set_udp_server_def udp_server_def running_servers_getitem_def close_def
      split: option.splits)

lemma fst_tcp_server: "fst (tcp_server u s) = (case running_servers s u of None \<Rightarrow> None | Some d \<Rightarrow> tcp d)"
  by (simp add: tcp_server_def running_servers_getitem_def split: option.splits)

lemma fst_udp_server: "fst (udp_server u s) = (case running_servers s u of None \<Rightarrow> None | Some d \<Rightarrow> udp d)"
  by (simp add: udp_server_def running_servers_getitem_def split: option.splits)

lemma install_tcp_all_trace:
  "close_calls (install_tcp_all u (h # hs) s) =
     close_calls s @ (case fst (tcp_server u s) of None \<Rightarrow> [] | Some old \<Rightarrow> [old]) @ butlast (h # hs)
   \<and> fst (tcp_server u (install_tcp_all u (h # hs) s)) = Some (last (h # hs))
   \<and> fst (udp_server u (install_tcp_all u (h # hs) s)) = fst (udp_server u s)"
proof (induction hs arbitrary: h s)
  case Nil
  show ?case by (simp add: set_tcp_server_eq fst_tcp_server fst_udp_server split: option.splits)
next
  case (Cons a hs)
  have step: "install_tcp_all u (h # a # hs) s = install_tcp_all u (a # hs) (set_tcp_server u h s)"
    by simp
  have reg: "fst (tcp_server u (set_tcp_server u h s)) = Some h"
    by (simp add: set_tcp_server_eq fst_tcp_server split: option.splits)
  have tr: "close_calls (set_tcp_server u h s) =
      close_calls s @ (case fst (tcp_server u s) of None \<Rightarrow> [] | Some old \<Rightarrow> [old])"
    by (simp add: set_tcp_server_eq fst_tcp_server split: option.splits)
  have ud: "fst (udp_server u (set_tcp_server u h s)) = fst (udp_server u s)"
    by (simp add: set_tcp_server_eq fst_udp_server split: option.splits)
  show ?case
    unfolding step using Cons.IH [of a "set_tcp_server u h s"] by (simp add: reg tr ud)
qed

lemma install_udp_all_trace:
  "close_calls (install_udp_all u (h # hs) s) =
     close_calls s @ (case fst (udp_server u s) of None \<Rightarrow> [] | Some old \<Rightarrow> [old]) @ butlast (h # hs)
   \<and> fst (udp_server u (install_udp_all u (h # hs) s)) = Some (last (h # hs))
   \<and> fst (tcp_server u (install_udp_all u (h # hs) s)) = fst (tcp_server u s)"
proof (induction hs arbitrary: h s)
  case Nil
  show ?case by (simp add: set_udp_server_eq fst_tcp_server fst_udp_server split: option.splits)
next
  case (Cons a hs)
  have step: "install_udp_all u (h # a # hs) s = install_udp_all u (a # hs) (set_udp_server u h s)"
    by simp
  have reg: "fst (udp_server u (set_udp_server u h s)) = Some h"
    by (simp add: set_udp_server_eq fst_udp_server split: option.splits)
  have tr: "close_calls (set_udp_server u h s) =
      close_calls s @ (case fst (udp_server u s) of None \<Rightarrow> [] | Some old \<Rightarrow> [old])"
    by (simp add: set_udp_server_eq fst_udp_server split: option.splits)
  have ud: "fst (tcp_server u (set_udp_server u h s)) = fst (tcp_server u s)"
    by (simp add: set_udp_server_eq fst_tcp_server split: option.splits)
  show ?case
    unfolding step using Cons.IH [of a "set_udp_server u h s"] by (simp add: reg tr ud)
qed

text \<open>
  Claim C9. For every tenant and protocol, the setter closes the handle that was
  registered for that tenant and protocol exactly once (the trace of close calls grows by
  that one handle, and by nothing when none was registered), then registers the new
  handle, and leaves the handle of the other protocol as it was. After a run of installs
  \<open>h # hs\<close> for one tenant, every handle but the last has been closed once, in order, and
  the last one is the registered one.
\<close>

theorem set_server_closes_previous_once:
  "close_calls (set_tcp_server u h s) =
     close_calls s @ (case fst (tcp_server u s) of None \<Rightarrow> [] | Some old \<Rightarrow> [old])
   \<and> fst (tcp_server u (set_tcp_server u h s)) = Some h
   \<and> fst (udp_server u (set_tcp_server u h s)) = fst (udp_server u s)
   \<and> close_calls (set_udp_server u h s) =
     close_calls s @ (case fst (udp_server u s) of None \<Rightarrow> [] | Some old \<Rightarrow> [old])
   \<and> fst (udp_server u (set_udp_server u h s)) = Some h
   \<and> fst (tcp_server u (set_udp_server u h s)) = fst (tcp_server u s)
   \<and> close_calls (install_tcp_all u (h # hs) s) =
     close_calls s @ (case fst (tcp_server u s) of None \<Rightarrow> [] | Some old \<Rightarrow> [old]) @ butlast (h # hs)
   \<and> fst (tcp_server u (install_tcp_all u (h # hs) s)) = Some (last (h # hs))
   \<and> close_calls (install_udp_all u (h # hs) s) =
     close_calls s @ (case fst (udp_server u s) of None \<Rightarrow> [] | Some old \<Rightarrow> [old]) @ butlast (h # hs)
   \<and> fst (udp_server u (install_udp_all u (h # hs) s)) = Some (last (h # hs))"
proof -
  have a: "close_calls (set_tcp_server u h s) =
     close_calls s @ (case fst (tcp_server u s) of None \<Rightarrow> [] | Some old \<Rightarrow> [old])
   \<and> fst (tcp_server u (set_tcp_server u h s)) = Some h
   \<and> fst (udp_server u (set_tcp_server u h s)) = fst (udp_server u s)"
    using install_tcp_all_trace [of u h "[]" s] by simp
  have b: "close_calls (set_udp_server u h s) =
     close_calls s @ (case fst (udp_server u s) of None \<Rightarrow> [] | Some old \<Rightarrow> [old])
   \<and> fst (udp_server u (set_udp_server u h s)) = Some h
   \<and> fst (tcp_server u (set_udp_server u h s)) = fst (tcp_server u s)"
    using install_udp_all_trace [of u h "[]" s] by simp
  from a b install_tcp_all_trace [of u h hs s] install_udp_all_trace [of u h hs s]
  show ?thesis by blast
qed

text \<open>
  Claim C1. The claim fails after a read of the getter \<open>tcp_server\<close> on a tenant that is not
  running: subscripting the \<open>defaultdict\<close> stores an empty item, so \<open>is_running\<close> turns
  true while neither a TCP nor a UDP handle is registered. In that state \<open>close_server\<close>
  raises \<open>KeyError\<close>, since it reads both keys of the item it pops.
\<close>

theorem is_running_after_getter_read:
  "\<not> is_running init_state 1
   \<and> tcp_server 1 init_state =
       (None, init_state\<lparr>running_servers := [1 \<mapsto> \<lparr>tcp = None, udp = None\<rparr>]\<rparr>)
   \<and> is_running (snd (tcp_server 1 init_state)) 1
   \<and> fst (tcp_server 1 (snd (tcp_server 1 init_state))) = None
   \<and> fst (udp_server 1 (snd (tcp_server 1 init_state))) = None
   \<and> fst (close_server \<lparr>user_id = 1, port = 8388, method = ''aes-256-cfb'', password = ''pw'',
          enable = True\<rparr> (snd (tcp_server 1 init_state))) = Inl KeyError"
  by (simp add: is_running_def init_state_def tcp_server_def udp_server_def
      running_servers_getitem_def close_server_def)

text \<open>In the same state \<open>init_server\<close>, with an enabled configuration equal to the row and
  binds that would succeed, returns without binding: the tenant cannot be started.\<close>

lemma getter_read_blocks_start:
  "init_server \<lparr>user_id = 1, port = 8388, method = ''aes-256-cfb'', password = ''pw'',
          enable = True\<rparr>
        \<lparr>user_id = 1, port = 8388, method = ''aes-256-cfb'', password = ''pw'',
          enable = True, speed_limit = 0\<rparr> Bound 100 (snd (tcp_server 1 init_state))
       = (Inr (), snd (tcp_server 1 init_state))"
  by (simp add: is_running_def init_state_def tcp_server_def
      running_servers_getitem_def init_server_def check_user_server_def)

section \<open>Properties of the lifecycle\<close>

lemma close_server_live:
  "running_servers s (user_id self) = Some sd \<Longrightarrow> tcp sd = Some t \<Longrightarrow> udp sd = Some d \<Longrightarrow>
   close_server self s =
     (Inr (), s\<lparr>running_servers := (running_servers s)(user_id self := None),
                close_calls := close_calls s @ [t, d],
                logged := logged s @ [Info_closed (user_id self) (port self)]\<rparr>)"
  by (simp add: close_server_def close_def)

lemma close_server_not_running: "\<not> is_running (snd (close_server self s)) (user_id self)"
  by (simp add: close_server_def is_running_def close_def Let_def split: option.splits)

lemma close_server_others:
  "v \<noteq> user_id self \<Longrightarrow> running_servers (snd (close_server self s)) v = running_servers s v"
  by (simp add: close_server_def close_def Let_def split: option.splits)

lemma check_user_server_drift:
  "method self \<noteq> method user \<or> port self \<noteq> port user \<or> password self \<noteq> password user
     \<or> \<not> enable user \<Longrightarrow> check_user_server self user s = close_server self s"
  by (auto simp: check_user_server_def)

lemma check_user_server_same:
  "method self = method user \<Longrightarrow> port self = port user \<Longrightarrow> password self = password user
     \<Longrightarrow> enable user \<Longrightarrow> check_user_server self user s = (Inr (), s)"
  by (simp add: check_user_server_def)

lemma check_user_server_others:
  "v \<noteq> user_id self \<Longrightarrow> running_servers (snd (check_user_server self user s)) v = running_servers s v"
  by (simp add: check_user_server_def close_server_others)

lemma get_by_id_user_id: "get_by_id u s = Some r \<Longrightarrow> user_id r = u"
  by (auto simp: get_by_id_def find_Some_iff)

lemma dict_update_init: "dict_update m init_new_metric = init_new_metric"
  by (simp add: dict_update_def init_new_metric_def)

lemma update_append_new:
  "map_of al k = None \<Longrightarrow> AList.update k v (al @ [(k, e)]) = al @ [(k, v)]"
  by (induction al) (auto split: if_splits)

lemma update_absent: "map_of al k = None \<Longrightarrow> AList.update k v al = al @ [(k, v)]"
  by (induction al) (auto split: if_splits)

lemma set_metrics_init:
  "set_metrics u init_new_metric s =
     s\<lparr>user_metrics := AList.update u init_new_metric (user_metrics s)\<rparr>"
  by (cases "map_of (user_metrics s) u")
     (simp_all add: set_metrics_def metrics_def dict_update_init update_append_new update_absent)

lemma set_tcp_server_upd:
  "set_tcp_server u h s =
     s\<lparr>running_servers := (running_servers s)(u \<mapsto>
          (case running_servers s u of None \<Rightarrow> \<lparr>tcp = None, udp = None\<rparr> | Some d \<Rightarrow> d)
            \<lparr>tcp := Some h\<rparr>),
       close_calls := close_calls s @
          (case running_servers s u of None \<Rightarrow> []
           | Some d \<Rightarrow> (case tcp d of None \<Rightarrow> [] | Some old \<Rightarrow> [old]))\<rparr>"
  by (simp add: set_tcp_server_eq split: option.splits)

lemma set_udp_server_upd:
  "set_udp_server u h s =
     s\<lparr>running_servers := (running_servers s)(u \<mapsto>
          (case running_servers s u of None \<Rightarrow> \<lparr>tcp = None, udp = None\<rparr> | Some d \<Rightarrow> d)
            \<lparr>udp := Some h\<rparr>),
       close_calls := close_calls s @
          (case running_servers s u of None \<Rightarrow> []
           | Some d \<Rightarrow> (case udp d of None \<Rightarrow> [] | Some old \<Rightarrow> [old]))\<rparr>"
  by (simp add: set_udp_server_eq split: option.splits)

lemma set_traffic_limiter_upd:
  "set_traffic_limiter u l s =
     s\<lparr>user_limiters := (user_limiters s)(u \<mapsto>
          (case user_limiters s u of None \<Rightarrow> \<lparr>traffic_lim = None, tcp_lim = None\<rparr> | Some d \<Rightarrow> d)
            \<lparr>traffic_lim := Some l\<rparr>)\<rparr>"
  by (simp add: set_traffic_limiter_def user_limiters_getitem_def split: option.splits)

lemma set_tcp_limiter_upd:
  "set_tcp_limiter u l s =
     s\<lparr>user_limiters := (user_limiters s)(u \<mapsto>
          (case user_limiters s u of None \<Rightarrow> \<lparr>traffic_lim = None, tcp_lim = None\<rparr> | Some d \<Rightarrow> d)
            \<lparr>tcp_lim := Some l\<rparr>)\<rparr>"
  by (simp add: set_tcp_limiter_def user_limiters_getitem_def split: option.splits)

lemma update_from_dict_user_id: "user_id (update_from_dict self user) = user_id self"
  by (simp add: update_from_dict_def)

lemma limiter_data_both:
  "(d::limiter_data)\<lparr>traffic_lim := a, tcp_lim := b\<rparr> = \<lparr>traffic_lim = a, tcp_lim = b\<rparr>"
  by (cases d) simp

lemma bound_state_fresh:
  "running_servers s (user_id self) = None \<Longrightarrow>
   bound_state self user limit s =
     s\<lparr>running_servers := (running_servers s)(user_id self \<mapsto>
          \<lparr>tcp = Some (next_handle s), udp = Some (Suc (next_handle s))\<rparr>),
       user_metrics := AList.update (user_id self) init_new_metric (user_metrics s),
       user_limiters := (user_limiters s)(user_id self \<mapsto>
          \<lparr>traffic_lim = Some (TrafficRateLimit (speed_limit user)),
           tcp_lim = Some (TcpConnRateLimit limit)\<rparr>),
       user_server_table :=
         map (\<lambda>r. if user_id r = user_id self then update_from_dict self user else r)
           (user_server_table s),
       logged := logged s @ [Info_started user],
       next_handle := Suc (Suc (next_handle s))\<rparr>"
  by (simp add: bound_state_def Let_def set_tcp_server_upd set_udp_server_upd
      set_traffic_limiter_upd set_tcp_limiter_upd set_metrics_init save_def
      update_from_dict_user_id limiter_data_both)

lemma init_server_bind:
  "\<not> is_running s (user_id self) \<Longrightarrow> enable user \<Longrightarrow>
   init_server self user outcome limit s =
     (case outcome of
        Tcp_OSError \<Rightarrow> (Inr (), s\<lparr>logged := logged s @ [Warning_OSError]\<rparr>)
      | Udp_OSError \<Rightarrow> (Inr (), s\<lparr>next_handle := Suc (next_handle s),
                             logged := logged s @ [Warning_OSError]\<rparr>)
      | Bound \<Rightarrow> (Inr (), bound_state self user limit s))"
  by (simp add: init_server_def split: bind_outcome.splits)

lemma init_server_disabled:
  "\<not> enable user \<Longrightarrow> \<not> is_running (snd (init_server self user outcome limit s)) (user_id self)"
  using close_server_not_running [of self s]
  by (auto simp: init_server_def check_user_server_def split: prod.splits sum.splits)

lemma init_server_others:
  assumes "v \<noteq> user_id self"
  shows "running_servers (snd (init_server self user outcome limit s)) v = running_servers s v"
proof -
  obtain r s1 where c: "(if is_running s (user_id self) then check_user_server self user s
      else (Inr (), s)) = (r, s1)"
    by (cases "if is_running s (user_id self) then check_user_server self user s else (Inr (), s)")
  have s1: "running_servers s1 v = running_servers s v"
    using c check_user_server_others [OF assms, of user s] by (auto split: if_splits)
  show ?thesis
  proof (cases r)
    case (Inl e)
    with c s1 show ?thesis by (simp add: init_server_def)
  next
    case (Inr x)
    show ?thesis
    proof (cases "is_running s1 (user_id self) \<or> \<not> enable user")
      case True
      with c Inr s1 show ?thesis by (simp add: init_server_def)
    next
      case False
      then have "running_servers s1 (user_id self) = None" by (simp add: is_running_def)
      with c Inr s1 False assms show ?thesis
        by (cases outcome) (simp_all add: init_server_def bound_state_fresh)
    qed
  qed
qed

lemma get_or_create_running:
  "running_servers (snd (get_or_create u d s)) = running_servers s"
  by (simp add: get_or_create_def split: option.splits)

lemma get_or_create_user_id: "user_id (fst (get_or_create u d s)) = u"
  by (auto simp: get_or_create_def split: option.splits dest: get_by_id_user_id)

lemma sweep_step:
  "init_user_servers bind limit (user # users) s =
     init_user_servers bind limit users
       (snd (init_server (fst (get_or_create (user_id user) (user_server.truncate user) s)) user
          (bind user) limit (snd (get_or_create (user_id user) (user_server.truncate user) s))))"
  by (simp add: split_beta)

lemma sweep_others:
  "v \<notin> user_id ` set users \<Longrightarrow>
   running_servers (init_user_servers bind limit users s) v = running_servers s v"
proof (induction users arbitrary: s)
  case Nil
  then show ?case by simp
next
  case (Cons user users)
  then have v: "v \<noteq> user_id user" "v \<notin> user_id ` set users" by auto
  show ?case
    unfolding sweep_step
    by (simp add: Cons.IH [OF v(2)] init_server_others v(1) get_or_create_user_id get_or_create_running)
qed

lemma sweep_disabled:
  "distinct (map user_id users) \<Longrightarrow> u \<in> set users \<Longrightarrow> \<not> enable u \<Longrightarrow>
     \<not> is_running (init_user_servers bind limit users s) (user_id u)"
proof (induction users arbitrary: s)
  case Nil
  then show ?case by simp
next
  case (Cons user users)
  show ?case
  proof (cases "u = user")
    case True
    with Cons.prems have n: "user_id user \<notin> user_id ` set users" by auto
    let ?g = "get_or_create (user_id user) (user_server.truncate user) s"
    have "\<not> is_running (snd (init_server (fst ?g) user (bind user) limit (snd ?g))) (user_id (fst ?g))"
      using Cons.prems(3) True by (intro init_server_disabled) simp
    then show ?thesis
      unfolding sweep_step using True
      by (simp add: is_running_def sweep_others [OF n] get_or_create_user_id)
  next
    case False
    with Cons.prems have "distinct (map user_id users)" "u \<in> set users" by auto
    from Cons.IH [OF this Cons.prems(3)] show ?thesis
      unfolding sweep_step .
  qed
qed

section \<open>Properties of the flush\<close>

lemma tcp_limiter_get_Some:
  "tcp_limiter_get u s = (Some l, s1) \<Longrightarrow> s1 = s \<and> (\<exists>d. user_limiters s u = Some d \<and> tcp_lim d = Some l)"
  by (auto simp: tcp_limiter_get_def user_limiters_getitem_def split: option.splits)

lemma flush_loop_state:
  "flush_loop items data ids s = (Inr r, s') \<Longrightarrow> s' = s"
proof (induction items arbitrary: data ids)
  case Nil
  then show ?case by simp
next
  case (Cons a items)
  obtain u m where a: "a = (u, m)" by (cases a)
  from Cons.prems show ?case
    unfolding a
    by (auto split: option.splits if_splits prod.splits
        dest!: tcp_limiter_get_Some dest: Cons.IH)
qed

lemma flush_loop_error:
  "fst (flush_loop items data ids s) \<noteq> Inl RequestFailed"
proof (induction items arbitrary: data ids)
  case Nil
  then show ?case by simp
next
  case (Cons a items)
  obtain u m where a: "a = (u, m)" by (cases a)
  show ?case
    unfolding a
    by (auto simp: Cons.IH split: option.splits if_splits prod.splits
        dest!: tcp_limiter_get_Some)
qed

lemma flush_loop_result:
  "flush_loop items data ids s = (Inr (d, i), s') \<Longrightarrow>
     i = ids @ map fst (filter (\<lambda>(u, m). has_traffic m) items) \<and>
     (\<exists>new. d = data @ new \<and>
        list_all2 (is_report_of s) new (filter (\<lambda>(u, m). has_traffic m) items))"
proof (induction items arbitrary: data ids)
  case Nil
  then show ?case by simp
next
  case (Cons a items)
  obtain u m where a: "a = (u, m)" by (cases a)
  show ?case
  proof (cases "has_traffic m")
    case False
    with Cons.prems have "flush_loop items data ids s = (Inr (d, i), s')"
      unfolding a by (auto simp: has_traffic_def split: option.splits if_splits)
    from Cons.IH [OF this] False show ?thesis unfolding a by simp
  next
    case True
    then obtain up down where ud: "upload_traffic m = Some up" "download_traffic m = Some down" "up + down > 0"
      by (auto simp: has_traffic_def split: option.splits)
    with Cons.prems obtain ips us l dd where
      x: "ip_list m = Some ips" "get_by_id u s = Some us"
         "user_limiters s (user_id us) = Some dd" "tcp_lim dd = Some l"
      and rec: "flush_loop items (data @ [\<lparr>r_user_id = u, r_upload_traffic = up, r_download_traffic = down,
                              r_ip_list = ips, r_tcp_conn_num = tcp_conn_num l\<rparr>]) (ids @ [u]) s = (Inr (d, i), s')"
      unfolding a by (auto split: option.splits prod.splits dest!: tcp_limiter_get_Some)
    let ?r = "\<lparr>r_user_id = u, r_upload_traffic = up, r_download_traffic = down,
                              r_ip_list = ips, r_tcp_conn_num = tcp_conn_num l\<rparr>"
    from x have "user_limiters s u = Some dd"
      by (auto dest!: get_by_id_user_id)
    with ud x have r: "is_report_of s ?r (u, m)"
      by (simp add: is_report_of_def)
    from Cons.IH [OF rec] obtain new where
      n: "i = (ids @ [u]) @ map fst (filter (\<lambda>(u, m). has_traffic m) items)"
         "d = (data @ [?r]) @ new"
         "list_all2 (is_report_of s) new (filter (\<lambda>(u, m). has_traffic m) items)"
      by blast
    have "d = data @ (?r # new)" using n(2) by simp
    moreover have "list_all2 (is_report_of s) (?r # new) (filter (\<lambda>(u, m). has_traffic m) (a # items))"
      using n(3) r True unfolding a by simp
    moreover have "i = ids @ map fst (filter (\<lambda>(u, m). has_traffic m) (a # items))"
      using n(1) True unfolding a by simp
    ultimately show ?thesis by blast
  qed
qed

lemma flush_loop_no_traffic:
  "list_all (\<lambda>(u, m). no_traffic m) items \<Longrightarrow> flush_loop items data ids s = (Inr (data, ids), s)"
proof (induction items)
  case Nil
  then show ?case by simp
next
  case (Cons a items)
  obtain u m where a: "a = (u, m)" by (cases a)
  from Cons show ?case unfolding a
    by (auto simp: no_traffic_def split: option.splits)
qed

lemma flush_loop_requests:
  "flush_loop items data ids (s\<lparr>requests := q\<rparr>) =
     (case flush_loop items data ids s of (r, s') \<Rightarrow> (r, s'\<lparr>requests := q\<rparr>))"
proof (induction items arbitrary: data ids)
  case Nil
  then show ?case by simp
next
  case (Cons a items)
  obtain u m where a: "a = (u, m)" by (cases a)
  have g: "get_by_id u (s\<lparr>requests := q\<rparr>) = get_by_id u s" for u
    by (simp add: get_by_id_def)
  have t: "tcp_limiter_get u (s\<lparr>requests := q\<rparr>) =
     (case tcp_limiter_get u s of (r, s') \<Rightarrow> (r, s'\<lparr>requests := q\<rparr>))" for u
    by (simp add: tcp_limiter_get_def user_limiters_getitem_def split: option.splits)
  show ?case unfolding a
    by (auto simp: g t Cons.IH split: option.splits prod.splits dest!: tcp_limiter_get_Some)
qed


lemma reset_loop_eq:
  "reset_loop ids s = s\<lparr>user_metrics := foldl (\<lambda>al u. AList.update u init_new_metric al) (user_metrics s) ids\<rparr>"
  by (induction ids arbitrary: s) (simp_all add: set_metrics_init)

lemma map_of_reset:
  "map_of (foldl (\<lambda>al u. AList.update u init_new_metric al) al ids) =
     (\<lambda>u. if u \<in> set ids then Some init_new_metric else map_of al u)"
  by (induction ids arbitrary: al) (auto simp: update_conv' fun_eq_iff)

lemma keys_reset:
  "set ids \<subseteq> fst ` set al \<Longrightarrow>
   map fst (foldl (\<lambda>al u. AList.update u init_new_metric al) al ids) = map fst al"
proof (induction ids arbitrary: al)
  case Nil
  then show ?case by simp
next
  case (Cons u ids)
  then have k: "map fst (AList.update u init_new_metric al) = map fst al"
    by (auto simp: update_keys)
  then have "fst ` set (AList.update u init_new_metric al) = fst ` set al"
    by (metis list.set_map)
  with Cons.prems have "set ids \<subseteq> fst ` set (AList.update u init_new_metric al)"
    by simp
  from Cons.IH [OF this] k show ?case by simp
qed

section \<open>Invariants of the registry\<close>

text \<open>
  \<open>init_server\<close> leaves the registry as it was, or removes the tenant's item, or stores an
  item with two new handles. So the sweeps keep both invariants, which hold initially;
  with the first, \<open>is_running\<close> is equivalent to a handle being registered. A read of a
  getter on a tenant that is not running breaks the first.
\<close>

lemma close_server_registry:
  "next_handle (snd (close_server self s)) = next_handle s \<and>
   running_servers (snd (close_server self s)) = (running_servers s)(user_id self := None)"
  by (auto simp: close_server_def close_def Let_def fun_eq_iff split: option.splits)

lemma check_user_server_registry:
  "next_handle (snd (check_user_server self user s)) = next_handle s \<and>
   (running_servers (snd (check_user_server self user s)) = running_servers s \<or>
    running_servers (snd (check_user_server self user s)) =
      (running_servers s)(user_id self := None))"
  by (simp add: check_user_server_def close_server_registry)

lemma init_server_registry:
  "next_handle s \<le> next_handle (snd (init_server self user outcome limit s)) \<and>
   (running_servers (snd (init_server self user outcome limit s)) = running_servers s \<or>
    running_servers (snd (init_server self user outcome limit s)) =
      (running_servers s)(user_id self := None) \<or>
    running_servers (snd (init_server self user outcome limit s)) =
      (running_servers s)(user_id self \<mapsto>
         \<lparr>tcp = Some (next_handle s), udp = Some (Suc (next_handle s))\<rparr>) \<and>
    next_handle (snd (init_server self user outcome limit s)) = Suc (Suc (next_handle s)))"
proof -
  obtain r s1 where c: "(if is_running s (user_id self) then check_user_server self user s
      else (Inr (), s)) = (r, s1)"
    by (cases "if is_running s (user_id self) then check_user_server self user s else (Inr (), s)")
  have s1: "next_handle s1 = next_handle s"
    "running_servers s1 = running_servers s \<or>
     running_servers s1 = (running_servers s)(user_id self := None)"
    using c check_user_server_registry [of self user s] by (auto split: if_splits)
  show ?thesis
  proof (cases r)
    case (Inl e)
    with c s1 show ?thesis by (simp add: init_server_def)
  next
    case (Inr x)
    show ?thesis
    proof (cases "is_running s1 (user_id self) \<or> \<not> enable user")
      case True
      with c Inr s1 show ?thesis by (simp add: init_server_def)
    next
      case False
      then have n: "running_servers s1 (user_id self) = None" by (simp add: is_running_def)
      with s1(2) have "(running_servers s1)(user_id self \<mapsto> e) = (running_servers s)(user_id self \<mapsto> e)" for e
        by auto
      with c Inr s1 False n show ?thesis
        by (cases outcome) (simp_all add: init_server_def bound_state_fresh)
    qed
  qed
qed

lemma init_server_entries_complete:
  "entries_complete s \<Longrightarrow> entries_complete (snd (init_server self user outcome limit s))"
  using init_server_registry [of s self user outcome limit]
  by (auto simp: entries_complete_def split: if_splits)

lemma init_server_handles_below:
  assumes "handles_below s"
  shows "handles_below (snd (init_server self user outcome limit s))"
proof -
  let ?s' = "snd (init_server self user outcome limit s)"
  note reg = init_server_registry [of s self user outcome limit]
  have old: "h < next_handle ?s'"
    if "running_servers s u = Some d" "tcp d = Some h \<or> udp d = Some h" for u d h
  proof -
    from assms that have "h < next_handle s"
      unfolding handles_below_def by blast
    with reg show ?thesis by linarith
  qed
  show ?thesis
    unfolding handles_below_def
  proof (intro allI impI)
    fix u d h
    assume e: "running_servers ?s' u = Some d" and h: "tcp d = Some h \<or> udp d = Some h"
    from reg consider
      (same) "running_servers ?s' = running_servers s"
      | (gone) "running_servers ?s' = (running_servers s)(user_id self := None)"
      | (new) "running_servers ?s' = (running_servers s)(user_id self \<mapsto>
           \<lparr>tcp = Some (next_handle s), udp = Some (Suc (next_handle s))\<rparr>)"
          "next_handle ?s' = Suc (Suc (next_handle s))"
      by blast
    then show "h < next_handle ?s'"
    proof cases
      case same
      with e h show ?thesis by (auto intro: old)
    next
      case gone
      with e have "running_servers s u = Some d" by (auto split: if_splits)
      with h show ?thesis by (auto intro: old)
    next
      case new
      show ?thesis
      proof (cases "u = user_id self")
        case True
        with new e h show ?thesis by auto
      next
        case False
        with new e have "running_servers s u = Some d" by simp
        with h show ?thesis by (auto intro: old)
      qed
    qed
  qed
qed

lemma get_or_create_next_handle:
  "next_handle (snd (get_or_create u d s)) = next_handle s"
  by (simp add: get_or_create_def split: option.splits)

lemma sweep_invariants:
  "entries_complete s \<Longrightarrow> handles_below s \<Longrightarrow>
   entries_complete (init_user_servers bind limit users s) \<and>
   handles_below (init_user_servers bind limit users s)"
proof (induction users arbitrary: s)
  case Nil
  then show ?case by simp
next
  case (Cons user users)
  let ?g = "get_or_create (user_id user) (user_server.truncate user) s"
  from Cons.prems have "entries_complete (snd ?g)" "handles_below (snd ?g)"
    by (simp_all add: entries_complete_def handles_below_def get_or_create_running
        get_or_create_next_handle)
  then have "entries_complete (snd (init_server (fst ?g) user (bind user) limit (snd ?g)))"
    "handles_below (snd (init_server (fst ?g) user (bind user) limit (snd ?g)))"
    by (simp_all add: init_server_entries_complete init_server_handles_below)
  from Cons.IH [OF this] show ?case unfolding sweep_step .
qed

lemma init_state_invariants: "entries_complete init_state \<and> handles_below init_state"
  by (simp add: entries_complete_def handles_below_def init_state_def)

lemma entries_complete_is_running:
  "entries_complete s \<Longrightarrow>
   is_running s u \<longleftrightarrow> fst (tcp_server u s) \<noteq> None \<or> fst (udp_server u s) \<noteq> None"
  by (auto simp: entries_complete_def is_running_def fst_tcp_server fst_udp_server
      split: option.splits)

lemma getter_read_breaks_entries_complete:
  "entries_complete init_state \<and> \<not> entries_complete (snd (tcp_server 1 init_state))"
  by (simp add: entries_complete_def init_state_def tcp_server_def running_servers_getitem_def)

section \<open>The example states, evaluated\<close>

lemmas example_defs = alice_def bob_def init_state_def get_or_create_def get_by_id_def
      is_running_def update_from_dict_def
      user_server.truncate_def user.defs user_server.defs

lemma alice_live_eq:
  "alice_live =
     \<lparr>running_servers = [1 \<mapsto> \<lparr>tcp = Some 0, udp = Some 1\<rparr>],
      user_metrics = [(1, init_new_metric)],
      user_limiters = [1 \<mapsto> \<lparr>traffic_lim = Some (TrafficRateLimit 0),
                                tcp_lim = Some (TcpConnRateLimit 100)\<rparr>],
      active_user_ids = [],
      user_server_table = [user_server.truncate alice],
      close_calls = [], logged = [Info_started alice], requests = [], next_handle = 2\<rparr>"
  by (simp add: alice_live_def example_defs init_server_bind bound_state_fresh)

lemma both_live_eq:
  "both_live =
     \<lparr>running_servers = [1 \<mapsto> \<lparr>tcp = Some 0, udp = Some 1\<rparr>,
                          2 \<mapsto> \<lparr>tcp = Some 2, udp = Some 3\<rparr>],
      user_metrics = [(1, init_new_metric), (2, init_new_metric)],
      user_limiters = [1 \<mapsto> \<lparr>traffic_lim = Some (TrafficRateLimit 0),
                                tcp_lim = Some (TcpConnRateLimit 100)\<rparr>,
                       2 \<mapsto> \<lparr>traffic_lim = Some (TrafficRateLimit 0),
                                tcp_lim = Some (TcpConnRateLimit 100)\<rparr>],
      active_user_ids = [],
      user_server_table = [user_server.truncate alice, user_server.truncate bob],
      close_calls = [], logged = [Info_started alice, Info_started bob], requests = [],
      next_handle = 4\<rparr>"
  by (simp add: both_live_def example_defs init_server_bind bound_state_fresh eval_nat_numeral)

lemma alice_busy_eq:
  "alice_busy = alice_live\<lparr>user_metrics :=
      [(1, \<lparr>upload_traffic = Some 10, download_traffic = Some 20, ip_list = Some {}\<rparr>)]\<rparr>"
  by (simp add: alice_busy_def alice_live_eq record_traffic_def metrics_def init_new_metric_def)

lemma bob_busy_eq:
  "bob_busy = both_live\<lparr>user_metrics :=
      [(1, init_new_metric),
       (2, \<lparr>upload_traffic = Some 100, download_traffic = Some 0, ip_list = Some {}\<rparr>)]\<rparr>"
  by (simp add: bob_busy_def both_live_eq record_traffic_def metrics_def init_new_metric_def)

lemma bob_flushed:
  "flush_metrics_to_remote True bob_busy =
     (Inr (), both_live\<lparr>requests :=
        [[\<lparr>r_user_id = 2, r_upload_traffic = 100, r_download_traffic = 0, r_ip_list = {},
           r_tcp_conn_num = 0\<rparr>]], active_user_ids := [2]\<rparr>)"
  by (simp add: flush_metrics_to_remote_def bob_busy_eq both_live_eq init_new_metric_def
        get_by_id_def tcp_limiter_get_def user_limiters_getitem_def TcpConnRateLimit_def
        set_metrics_def metrics_def dict_update_def
        example_defs)

lemma bob_idle_eq:
  "bob_idle = both_live\<lparr>requests :=
        [[\<lparr>r_user_id = 2, r_upload_traffic = 100, r_download_traffic = 0, r_ip_list = {},
           r_tcp_conn_num = 0\<rparr>]], active_user_ids := [2]\<rparr>"
  by (simp add: bob_idle_def bob_flushed)

lemma bob_flush_result: "flush_metrics_to_remote True bob_busy = (Inr (), bob_idle)"
  by (simp add: bob_idle_eq bob_flushed)

lemma bob_idle_unstarted_eq:
  "bob_idle_unstarted =
     bob_idle\<lparr>user_metrics := [(1, init_new_metric), (2, init_new_metric), (3, empty_metric)]\<rparr>"
  by (simp add: bob_idle_unstarted_def bob_idle_eq both_live_eq record_traffic_def metrics_def
      empty_metric_def init_new_metric_def)

section \<open>The claims about the lifecycle\<close>

text \<open>
  Claim C6. \<open>init_server\<close> on a tenant that is running, with a configuration whose method,
  port and password equal those of the row and whose \<open>enable\<close> is true, returns without
  an exception and leaves the whole state as it was: the registered handles, the metrics,
  the limiters, the table, the trace of close calls and the log.
\<close>

theorem init_server_noop_when_unchanged:
  assumes "is_running s (user_id self)"
    and "method self = method user" and "port self = port user"
    and "password self = password user" and "enable user"
  shows "init_server self user outcome limit s = (Inr (), s)"
  using assms by (simp add: init_server_def check_user_server_same)

text \<open>The theorem at the first example tenant, running with handles 0 and 1.\<close>

theorem init_server_noop_when_unchanged_witness:
  "is_running alice_live (user_id (user_server.truncate alice))
   \<and> method (user_server.truncate alice) = method alice
   \<and> port (user_server.truncate alice) = port alice
   \<and> password (user_server.truncate alice) = password alice
   \<and> enable alice
   \<and> init_server (user_server.truncate alice) alice Bound 100 alice_live = (Inr (), alice_live)
   \<and> running_servers alice_live 1 = Some \<lparr>tcp = Some 0, udp = Some 1\<rparr>"
  using init_server_noop_when_unchanged [of alice_live "user_server.truncate alice" alice Bound 100]
  by (simp add: alice_live_eq example_defs)

text \<open>
  An \<open>OSError\<close> of a bind is caught. When \<open>init_server\<close> reaches its binds and one of
  them raises, the call returns without an exception, a warning is logged and no handle
  is registered: from a state \<open>s\<close> in which the tenant is not running, and from a state
  \<open>s0\<close> in which the tenant runs with a configuration that differs from the row, where
  the old handles have been closed first. A sweep whose first tenant fails so goes on
  with the other tenants. When the second bind is the one that fails, the count of
  created handles has grown by one and the trace of close calls has not.
\<close>

lemma bind_failure_caught:
  assumes "outcome \<noteq> Bound" and "enable user" and "\<not> is_running s (user_id self)"
  shows "init_server self user outcome limit s =
           (Inr (), s\<lparr>next_handle := (if outcome = Udp_OSError then Suc (next_handle s)
                                       else next_handle s),
                       logged := logged s @ [Warning_OSError]\<rparr>)
         \<and> \<not> is_running (snd (init_server self user outcome limit s)) (user_id self)
         \<and> (running_servers s0 (user_id self) = Some \<lparr>tcp = Some t, udp = Some d\<rparr> \<longrightarrow>
              method self \<noteq> method user \<or> port self \<noteq> port user
                \<or> password self \<noteq> password user \<longrightarrow>
              init_server self user outcome limit s0 =
                (Inr (), s0\<lparr>running_servers := (running_servers s0)(user_id self := None),
                            close_calls := close_calls s0 @ [t, d],
                            next_handle := (if outcome = Udp_OSError then Suc (next_handle s0)
                                            else next_handle s0),
                            logged := logged s0 @
                              [Info_closed (user_id self) (port self), Warning_OSError]\<rparr>))
         \<and> (user_id self = user_id user \<longrightarrow> bind user = outcome \<longrightarrow>
              init_user_servers bind limit (user # users) s =
                init_user_servers bind limit users
                  ((snd (get_or_create (user_id user) (user_server.truncate user) s))
                     \<lparr>next_handle := (if outcome = Udp_OSError then Suc (next_handle s)
                                       else next_handle s),
                      logged := logged s @ [Warning_OSError]\<rparr>))"
proof -
  have fail: "init_server self' user outcome limit s' =
           (Inr (), s'\<lparr>next_handle := (if outcome = Udp_OSError then Suc (next_handle s')
                                       else next_handle s'),
                       logged := logged s' @ [Warning_OSError]\<rparr>)"
    if "\<not> is_running s' (user_id self')" for self' s'
    using that assms(1,2) by (cases outcome) (simp_all add: init_server_bind)
  note a = fail [OF assms(3)]
  have b: "\<not> is_running (snd (init_server self user outcome limit s)) (user_id self)"
    using assms(3) by (simp add: a is_running_def)
  have c: "init_server self user outcome limit s0 =
                (Inr (), s0\<lparr>running_servers := (running_servers s0)(user_id self := None),
                            close_calls := close_calls s0 @ [t, d],
                            next_handle := (if outcome = Udp_OSError then Suc (next_handle s0)
                                            else next_handle s0),
                            logged := logged s0 @
                              [Info_closed (user_id self) (port self), Warning_OSError]\<rparr>)"
    if live: "running_servers s0 (user_id self) = Some \<lparr>tcp = Some t, udp = Some d\<rparr>"
      and drift: "method self \<noteq> method user \<or> port self \<noteq> port user
                \<or> password self \<noteq> password user"
  proof -
    let ?s1 = "s0\<lparr>running_servers := (running_servers s0)(user_id self := None),
                close_calls := close_calls s0 @ [t, d],
                logged := logged s0 @ [Info_closed (user_id self) (port self)]\<rparr>"
    have "check_user_server self user s0 = close_server self s0"
      using drift by (intro check_user_server_drift) blast
    then have chk: "check_user_server self user s0 = (Inr (), ?s1)"
      using close_server_live [OF live, of t d] by simp
    have n: "\<not> is_running ?s1 (user_id self)" by (simp add: is_running_def)
    have "init_server self user outcome limit s0 = init_server self user outcome limit ?s1"
      using live assms(1,2) n
      by (cases outcome) (simp_all add: init_server_def is_running_def chk)
    then show ?thesis by (simp add: fail [OF n])
  qed
  have e: "init_user_servers bind limit (user # users) s =
                init_user_servers bind limit users
                  ((snd (get_or_create (user_id user) (user_server.truncate user) s))
                     \<lparr>next_handle := (if outcome = Udp_OSError then Suc (next_handle s)
                                       else next_handle s),
                      logged := logged s @ [Warning_OSError]\<rparr>)"
    if "user_id self = user_id user" "bind user = outcome"
  proof -
    let ?g = "get_or_create (user_id user) (user_server.truncate user) s"
    have "\<not> is_running (snd ?g) (user_id (fst ?g))"
      using assms(3) that(1) by (simp add: is_running_def get_or_create_running get_or_create_user_id)
    from fail [OF this]
    have "init_server (fst ?g) user outcome limit (snd ?g) =
       (Inr (), (snd ?g)\<lparr>next_handle := (if outcome = Udp_OSError then Suc (next_handle (snd ?g))
                                       else next_handle (snd ?g)),
                       logged := logged (snd ?g) @ [Warning_OSError]\<rparr>)" .
    moreover have "next_handle (snd ?g) = next_handle s" "logged (snd ?g) = logged s"
      by (simp_all add: get_or_create_def split: option.splits)
    ultimately show ?thesis
      unfolding sweep_step using that(2) by simp
  qed
  from a b c e show ?thesis by blast
qed

text \<open>At the first example tenant, not running and running, and at a sweep over both
  example tenants in which the bind of the first fails: the first is not running, the
  second is.\<close>

lemma bind_failure_caught_example:
  "Tcp_OSError \<noteq> Bound \<and> enable (alice\<lparr>password := ''new''\<rparr>)
   \<and> \<not> is_running init_state (user_id (user_server.truncate alice))
   \<and> init_server (user_server.truncate alice) (alice\<lparr>password := ''new''\<rparr>) Tcp_OSError 100
        init_state = (Inr (), init_state\<lparr>logged := [Warning_OSError]\<rparr>)
   \<and> running_servers alice_busy (user_id (user_server.truncate alice)) =
        Some \<lparr>tcp = Some 0, udp = Some 1\<rparr>
   \<and> password (user_server.truncate alice) \<noteq> password (alice\<lparr>password := ''new''\<rparr>)
   \<and> init_server (user_server.truncate alice) (alice\<lparr>password := ''new''\<rparr>) Tcp_OSError 100
        alice_busy =
       (Inr (), alice_busy\<lparr>running_servers := Map.empty, close_calls := [0, 1],
                  logged := [Info_started alice, Info_closed 1 8388, Warning_OSError]\<rparr>)
   \<and> \<not> is_running (init_user_servers (\<lambda>u. if user_id u = 1 then Tcp_OSError else Bound) 100
          [alice\<lparr>password := ''new''\<rparr>, bob] init_state) 1
   \<and> running_servers (init_user_servers (\<lambda>u. if user_id u = 1 then Tcp_OSError else Bound) 100
          [alice\<lparr>password := ''new''\<rparr>, bob] init_state) 2 = Some \<lparr>tcp = Some 0, udp = Some 1\<rparr>"
  using bind_failure_caught [of Tcp_OSError "alice\<lparr>password := ''new''\<rparr>" init_state
      "user_server.truncate alice" 100 alice_busy 0 1
      "\<lambda>u. if user_id u = 1 then Tcp_OSError else Bound" "[bob]"]
  by (simp add: alice_busy_eq alice_live_eq example_defs init_server_bind bound_state_fresh)

text \<open>
  Claim C8. The claim fails when \<open>create_server\<close> succeeds and
  \<open>create_datagram_endpoint\<close> raises \<open>OSError\<close>. \<open>init_server\<close> on the first example
  tenant, from the initial state: the call returns normally and logs the warning, but the
  TCP server it created (handle 0) is neither registered nor closed. The tenant is not
  running in the registry, so \<open>close_server\<close> does nothing, and after a later start
  (handles 1 and 2) and \<open>close_server\<close> the trace of close calls is \<open>[1, 2]\<close>: no call
  closes handle 0.
\<close>

theorem udp_bind_failure_leaks_tcp_server:
  "next_handle init_state = 0
   \<and> init_server (user_server.truncate alice) alice Udp_OSError 100 init_state =
        (Inr (), init_state\<lparr>next_handle := 1, logged := [Warning_OSError]\<rparr>)
   \<and> close_calls (snd (init_server (user_server.truncate alice) alice Udp_OSError 100 init_state))
        = []
   \<and> \<not> is_running
         (snd (init_server (user_server.truncate alice) alice Udp_OSError 100 init_state)) 1
   \<and> close_server (user_server.truncate alice)
        (snd (init_server (user_server.truncate alice) alice Udp_OSError 100 init_state)) =
        (Inr (), snd (init_server (user_server.truncate alice) alice Udp_OSError 100 init_state))
   \<and> running_servers (snd (init_server (user_server.truncate alice) alice Bound 100
        (snd (init_server (user_server.truncate alice) alice Udp_OSError 100 init_state)))) 1 =
        Some \<lparr>tcp = Some 1, udp = Some 2\<rparr>
   \<and> close_calls (snd (close_server (user_server.truncate alice)
        (snd (init_server (user_server.truncate alice) alice Bound 100
          (snd (init_server (user_server.truncate alice) alice Udp_OSError 100 init_state))))))
        = [1, 2]"
proof -
  have f: "init_server (user_server.truncate alice) alice Udp_OSError 100 init_state =
        (Inr (), init_state\<lparr>next_handle := 1, logged := [Warning_OSError]\<rparr>)"
    by (simp add: init_server_bind example_defs)
  have g: "init_server (user_server.truncate alice) alice Bound 100
        (init_state\<lparr>next_handle := 1, logged := [Warning_OSError]\<rparr>) =
      (Inr (), bound_state (user_server.truncate alice) alice 100
        (init_state\<lparr>next_handle := 1, logged := [Warning_OSError]\<rparr>))"
    by (simp add: init_server_bind example_defs)
  show ?thesis
    unfolding f g snd_conv
    by (simp add: bound_state_fresh close_server_def close_def example_defs eval_nat_numeral)
qed

text \<open>From the theorem: handle 0 exists, is not registered, and is not among the handles
  closed.\<close>

theorem udp_bind_failure_leaks_tcp_server_witness:
  "0 < next_handle (snd (init_server (user_server.truncate alice) alice Udp_OSError 100 init_state))
   \<and> 0 \<notin> set (close_calls (snd (close_server (user_server.truncate alice)
        (snd (init_server (user_server.truncate alice) alice Bound 100
          (snd (init_server (user_server.truncate alice) alice Udp_OSError 100 init_state)))))))
   \<and> running_servers
        (snd (init_server (user_server.truncate alice) alice Udp_OSError 100 init_state)) 1 = None"
proof -
  note leak = udp_bind_failure_leaks_tcp_server
  from leak have "next_handle
      (snd (init_server (user_server.truncate alice) alice Udp_OSError 100 init_state)) = 1"
    by simp
  moreover from leak have "close_calls (snd (close_server (user_server.truncate alice)
        (snd (init_server (user_server.truncate alice) alice Bound 100
          (snd (init_server (user_server.truncate alice) alice Udp_OSError 100 init_state))))))
        = [1, 2]"
    by (elim conjE)
  moreover from leak have "\<not> is_running
         (snd (init_server (user_server.truncate alice) alice Udp_OSError 100 init_state)) 1"
    by (elim conjE)
  ultimately show ?thesis by (simp add: is_running_def)
qed

text \<open>The trace of close calls only grows, and \<open>init_server\<close> with a disabled
  configuration either closes both handles of a running tenant or changes nothing.\<close>

lemma close_server_close_calls:
  "\<exists>post. close_calls (snd (close_server self s)) = close_calls s @ post"
  by (simp add: close_server_def close_def Let_def split: option.splits)

lemma check_user_server_close_calls:
  "\<exists>post. close_calls (snd (check_user_server self user s)) = close_calls s @ post"
  by (simp add: check_user_server_def close_server_close_calls)

lemma init_server_close_calls:
  "\<exists>post. close_calls (snd (init_server self user outcome limit s)) = close_calls s @ post"
proof -
  obtain r s1 where c: "(if is_running s (user_id self) then check_user_server self user s
      else (Inr (), s)) = (r, s1)"
    by (cases "if is_running s (user_id self) then check_user_server self user s else (Inr (), s)")
  have s1: "\<exists>post. close_calls s1 = close_calls s @ post"
    using c check_user_server_close_calls [of self user s] by (auto split: if_splits)
  show ?thesis
  proof (cases r)
    case (Inl e)
    with c s1 show ?thesis by (simp add: init_server_def)
  next
    case (Inr x)
    show ?thesis
    proof (cases "is_running s1 (user_id self) \<or> \<not> enable user")
      case True
      with c Inr s1 show ?thesis by (simp add: init_server_def)
    next
      case False
      then have "running_servers s1 (user_id self) = None" by (simp add: is_running_def)
      with c Inr s1 False show ?thesis
        by (cases outcome) (simp_all add: init_server_def bound_state_fresh)
    qed
  qed
qed

lemma get_or_create_close_calls:
  "close_calls (snd (get_or_create u d s)) = close_calls s"
  by (simp add: get_or_create_def split: option.splits)

lemma sweep_close_calls:
  "\<exists>post. close_calls (init_user_servers bind limit users s) = close_calls s @ post"
proof (induction users arbitrary: s)
  case Nil
  then show ?case by simp
next
  case (Cons user users)
  let ?g = "get_or_create (user_id user) (user_server.truncate user) s"
  let ?s2 = "snd (init_server (fst ?g) user (bind user) limit (snd ?g))"
  obtain p1 where p1: "close_calls ?s2 = close_calls s @ p1"
    using init_server_close_calls [of "fst ?g" user "bind user" limit "snd ?g"]
    by (auto simp: get_or_create_close_calls)
  obtain p2 where "close_calls (init_user_servers bind limit users ?s2) = close_calls ?s2 @ p2"
    using Cons.IH [of ?s2] by blast
  with p1 show ?case unfolding sweep_step by simp
qed

lemma init_server_disabled_live:
  assumes "\<not> enable user"
    and "running_servers s (user_id self) = Some \<lparr>tcp = Some t, udp = Some d\<rparr>"
  shows "init_server self user outcome limit s =
     (Inr (), s\<lparr>running_servers := (running_servers s)(user_id self := None),
                close_calls := close_calls s @ [t, d],
                logged := logged s @ [Info_closed (user_id self) (port self)]\<rparr>)"
proof -
  have "check_user_server self user s = close_server self s"
    using assms(1) by (intro check_user_server_drift) blast
  then have "check_user_server self user s =
     (Inr (), s\<lparr>running_servers := (running_servers s)(user_id self := None),
                close_calls := close_calls s @ [t, d],
                logged := logged s @ [Info_closed (user_id self) (port self)]\<rparr>)"
    using close_server_live [OF assms(2), of t d] by simp
  then show ?thesis
    using assms by (simp add: init_server_def is_running_def)
qed

lemma init_server_disabled_idle:
  "\<not> enable user \<Longrightarrow> \<not> is_running s (user_id self) \<Longrightarrow>
   init_server self user outcome limit s = (Inr (), s)"
  by (simp add: init_server_def)

lemma sweep_disabled_closes:
  "distinct (map user_id users) \<Longrightarrow> u \<in> set users \<Longrightarrow> \<not> enable u \<Longrightarrow>
   running_servers s (user_id u) = Some \<lparr>tcp = Some t, udp = Some d\<rparr> \<Longrightarrow>
   \<exists>pre post. close_calls (init_user_servers bind limit users s) =
      close_calls s @ pre @ [t, d] @ post"
proof (induction users arbitrary: s)
  case Nil
  then show ?case by simp
next
  case (Cons user users)
  let ?g = "get_or_create (user_id user) (user_server.truncate user) s"
  let ?s2 = "snd (init_server (fst ?g) user (bind user) limit (snd ?g))"
  show ?case
  proof (cases "u = user")
    case True
    have live: "running_servers (snd ?g) (user_id (fst ?g)) = Some \<lparr>tcp = Some t, udp = Some d\<rparr>"
      using Cons.prems(4) True by (simp add: get_or_create_running get_or_create_user_id)
    have "\<not> enable user" using Cons.prems(3) True by simp
    from init_server_disabled_live [OF this live, of "bind user" limit]
    have "close_calls ?s2 = close_calls s @ [t, d]"
      by (simp add: get_or_create_close_calls)
    moreover obtain post where
      "close_calls (init_user_servers bind limit users ?s2) = close_calls ?s2 @ post"
      using sweep_close_calls [of bind limit users ?s2] by blast
    ultimately have "close_calls (init_user_servers bind limit (user # users) s) =
        close_calls s @ [] @ [t, d] @ post"
      unfolding sweep_step by simp
    then show ?thesis by blast
  next
    case False
    with Cons.prems have d: "distinct (map user_id users)" "u \<in> set users"
      and fresh: "user_id user \<notin> user_id ` set users" by auto
    from d(2) fresh have ne: "user_id u \<noteq> user_id user" by (metis imageI)
    have "running_servers ?s2 (user_id u) = Some \<lparr>tcp = Some t, udp = Some d\<rparr>"
      using ne Cons.prems(4)
      by (simp add: init_server_others get_or_create_user_id get_or_create_running)
    from Cons.IH [OF d Cons.prems(3) this] obtain pre post where
      "close_calls (init_user_servers bind limit users ?s2) = close_calls ?s2 @ pre @ [t, d] @ post"
      by blast
    moreover obtain p1 where "close_calls ?s2 = close_calls s @ p1"
      using init_server_close_calls [of "fst ?g" user "bind user" limit "snd ?g"]
      by (auto simp: get_or_create_close_calls)
    ultimately have "close_calls (init_user_servers bind limit (user # users) s) =
        close_calls s @ (p1 @ pre) @ [t, d] @ post"
      unfolding sweep_step by simp
    then show ?thesis by blast
  qed
qed

text \<open>
  Claim C7. After a sweep over tenants with distinct ids, from any state and whatever the
  binds do, a tenant whose configuration has \<open>enable\<close> false is not running. If it was
  running with handles \<open>t\<close> and \<open>d\<close>, the sweep has called \<open>close()\<close> on both, one after
  the other: its \<open>init_server\<close> removes the item, closes both handles and logs. If it was
  not running, its \<open>init_server\<close> changes nothing: no bind is attempted.
\<close>

theorem disabled_not_running_after_sweep:
  assumes "distinct (map user_id users)" and "u \<in> set users" and "\<not> enable u"
  shows "\<not> is_running (init_user_servers bind limit users s) (user_id u)
     \<and> (running_servers s (user_id u) = Some \<lparr>tcp = Some t, udp = Some d\<rparr> \<longrightarrow>
          (\<exists>pre post. close_calls (init_user_servers bind limit users s) =
             close_calls s @ pre @ [t, d] @ post))
     \<and> (running_servers s (user_id self) = Some \<lparr>tcp = Some t, udp = Some d\<rparr> \<longrightarrow>
          init_server self u outcome limit s =
            (Inr (), s\<lparr>running_servers := (running_servers s)(user_id self := None),
                        close_calls := close_calls s @ [t, d],
                        logged := logged s @ [Info_closed (user_id self) (port self)]\<rparr>))
     \<and> (\<not> is_running s (user_id self) \<longrightarrow> init_server self u outcome limit s = (Inr (), s))"
  using sweep_disabled [OF assms] sweep_disabled_closes [OF assms]
    init_server_disabled_live [OF assms(3)] init_server_disabled_idle [OF assms(3)]
  by blast

text \<open>The theorem at a sweep in which the second example tenant is disabled: from the
  state in which it runs with handles 2 and 3, both are closed and the first tenant keeps
  its handles; from the initial state nothing happens.\<close>

theorem disabled_not_running_after_sweep_witness:
  "distinct (map user_id [alice, bob\<lparr>enable := False\<rparr>])
   \<and> bob\<lparr>enable := False\<rparr> \<in> set [alice, bob\<lparr>enable := False\<rparr>]
   \<and> \<not> enable (bob\<lparr>enable := False\<rparr>)
   \<and> running_servers both_live 2 = Some \<lparr>tcp = Some 2, udp = Some 3\<rparr>
   \<and> close_calls both_live = []
   \<and> \<not> is_running (init_user_servers (\<lambda>_. Bound) 100 [alice, bob\<lparr>enable := False\<rparr>] both_live) 2
   \<and> close_calls (init_user_servers (\<lambda>_. Bound) 100 [alice, bob\<lparr>enable := False\<rparr>] both_live)
        = [2, 3]
   \<and> running_servers (init_user_servers (\<lambda>_. Bound) 100 [alice, bob\<lparr>enable := False\<rparr>] both_live) 1
        = Some \<lparr>tcp = Some 0, udp = Some 1\<rparr>
   \<and> \<not> is_running init_state 2
   \<and> init_server (user_server.truncate bob) (bob\<lparr>enable := False\<rparr>) Bound 100 init_state
        = (Inr (), init_state)"
proof -
  have facts: "distinct (map user_id [alice, bob\<lparr>enable := False\<rparr>])"
    "bob\<lparr>enable := False\<rparr> \<in> set [alice, bob\<lparr>enable := False\<rparr>]"
    "\<not> enable (bob\<lparr>enable := False\<rparr>)"
    "running_servers both_live 2 = Some \<lparr>tcp = Some 2, udp = Some 3\<rparr>"
    "close_calls both_live = []"
    "\<not> is_running init_state 2"
    "user_id (bob\<lparr>enable := False\<rparr>) = 2" "user_id (user_server.truncate bob) = 2"
    by (simp_all add: both_live_eq example_defs)
  have sweep: "init_user_servers (\<lambda>_. Bound) 100 [alice, bob\<lparr>enable := False\<rparr>] both_live =
     both_live\<lparr>running_servers := [1 \<mapsto> \<lparr>tcp = Some 0, udp = Some 1\<rparr>],
       close_calls := [2, 3],
       logged := [Info_started alice, Info_started bob, Info_closed 2 8389]\<rparr>"
    by (simp add: both_live_eq example_defs init_server_def check_user_server_def
        close_server_def close_def fun_eq_iff)
  from disabled_not_running_after_sweep [OF facts(1-3),
      of "\<lambda>_. Bound" 100 both_live 2 3 "user_server.truncate bob" Bound]
    disabled_not_running_after_sweep [OF facts(1-3),
      of "\<lambda>_. Bound" 100 init_state 2 3 "user_server.truncate bob" Bound]
    facts
  show ?thesis by (simp add: sweep is_running_def del: init_user_servers.simps)
qed

section \<open>The claims about metrics\<close>

text \<open>\<open>record_traffic\<close> on a tenant that was never started, and on a tenant whose only start
  failed at the bind, raises \<open>KeyError\<close>: the dict that the getter \<open>metrics\<close> creates
  has no counters.\<close>

theorem record_traffic_fails_without_metrics:
  "fst (record_traffic 1 10 20 init_state) = Inl KeyError
   \<and> fst (record_traffic 1 10 20
        (init_user_servers (\<lambda>_. Tcp_OSError) 100 [alice] init_state)) = Inl KeyError"
  by (simp add: record_traffic_def metrics_def empty_metric_def example_defs init_server_bind)

text \<open>
  Claim C4, amended. For every tenant whose metrics dict holds both counters (as it does
  from a successful start on) and all amounts, \<open>record_traffic\<close> returns without an
  exception, adds the first amount to the upload counter and the second to the download
  counter, and changes no other tenant's metrics; \<open>record_traffic(10, 20)\<close> followed by
  \<open>record_traffic(5, 0)\<close> adds 15 and 20.
\<close>

theorem record_traffic_adds:
  assumes "map_of (user_metrics s) u = Some m"
    and "upload_traffic m = Some a" and "download_traffic m = Some b"
  shows "fst (record_traffic u used_u used_d s) = Inr ()
     \<and> fst (metrics u (snd (record_traffic u used_u used_d s))) =
          m\<lparr>upload_traffic := Some (a + used_u), download_traffic := Some (b + used_d)\<rparr>
     \<and> (\<forall>v. v \<noteq> u \<longrightarrow>
          map_of (user_metrics (snd (record_traffic u used_u used_d s))) v =
          map_of (user_metrics s) v)
     \<and> fst (metrics u (snd (record_traffic u 5 0 (snd (record_traffic u 10 20 s))))) =
          m\<lparr>upload_traffic := Some (a + 15), download_traffic := Some (b + 20)\<rparr>"
proof -
  have step: "record_traffic u x y s' =
      (Inr (), s'\<lparr>user_metrics := AList.update u
         (m'\<lparr>upload_traffic := Some (a' + x), download_traffic := Some (b' + y)\<rparr>)
         (user_metrics s')\<rparr>)"
    if "map_of (user_metrics s') u = Some m'" "upload_traffic m' = Some a'"
      "download_traffic m' = Some b'" for x y s' m' a' b'
    using that by (simp add: record_traffic_def metrics_def update_conv')
  note one = step [OF assms]
  have look: "fst (metrics u (s'\<lparr>user_metrics := AList.update u m' al\<rparr>)) = m'" for s' m' al
    by (simp add: metrics_def update_conv')
  let ?m1 = "m\<lparr>upload_traffic := Some (a + 10), download_traffic := Some (b + 20)\<rparr>"
  let ?s1 = "s\<lparr>user_metrics := AList.update u ?m1 (user_metrics s)\<rparr>"
  have r1: "record_traffic u 10 20 s = (Inr (), ?s1)"
    by (rule step [OF assms])
  have r2: "record_traffic u 5 0 ?s1 =
      (Inr (), ?s1\<lparr>user_metrics := AList.update u
         (?m1\<lparr>upload_traffic := Some (a + 10 + 5), download_traffic := Some (b + 20 + 0)\<rparr>)
         (user_metrics ?s1)\<rparr>)"
    by (rule step) (simp_all add: update_conv')
  have a: "fst (record_traffic u used_u used_d s) = Inr ()"
    by (simp add: one)
  have b: "fst (metrics u (snd (record_traffic u used_u used_d s))) =
          m\<lparr>upload_traffic := Some (a + used_u), download_traffic := Some (b + used_d)\<rparr>"
    by (simp add: one look)
  have c: "\<forall>v. v \<noteq> u \<longrightarrow>
          map_of (user_metrics (snd (record_traffic u used_u used_d s))) v =
          map_of (user_metrics s) v"
    by (simp add: one update_conv')
  have d: "fst (metrics u (snd (record_traffic u 5 0 (snd (record_traffic u 10 20 s))))) =
          m\<lparr>upload_traffic := Some (a + 15), download_traffic := Some (b + 20)\<rparr>"
    unfolding r1 snd_conv r2 by (simp add: metrics_def update_conv')
  from a b c d show ?thesis by blast
qed

text \<open>The theorem at the first example tenant after its start: the counters are 15 and 20.\<close>

theorem record_traffic_adds_witness:
  "map_of (user_metrics alice_live) 1 = Some init_new_metric
   \<and> upload_traffic init_new_metric = Some 0 \<and> download_traffic init_new_metric = Some 0
   \<and> fst (record_traffic 1 10 20 alice_live) = Inr ()
   \<and> fst (metrics 1 (snd (record_traffic 1 5 0 (snd (record_traffic 1 10 20 alice_live))))) =
        \<lparr>upload_traffic = Some 15, download_traffic = Some 20, ip_list = Some {}\<rparr>"
  using record_traffic_adds [of alice_live 1 init_new_metric 0 0 10 20]
  by (simp add: alice_live_eq init_new_metric_def)




section \<open>The claims about the flush\<close>

lemma reset_loop_frame:
  "requests (reset_loop ids s) = requests s"
  by (simp add: reset_loop_eq)

text \<open>
  Claim C2. When the request to the sink raises, \<open>flush_metrics_to_remote\<close> leaves every
  tenant's metrics and the active ids as they were: the state differs by the recorded
  request only. A second flush from that state, delivered or not, posts the same body.
\<close>

theorem flush_failure_keeps_metrics:
  assumes "flush_metrics_to_remote False s = (Inl RequestFailed, s1)"
  shows "user_metrics s1 = user_metrics s \<and> active_user_ids s1 = active_user_ids s
     \<and> s1 = s\<lparr>requests := requests s @ [last (requests s1)]\<rparr>
     \<and> requests (snd (flush_metrics_to_remote False s1)) = requests s1 @ [last (requests s1)]
     \<and> requests (snd (flush_metrics_to_remote True s1)) = requests s1 @ [last (requests s1)]"
proof -
  obtain r s0 where l: "flush_loop (user_metrics s) [] [] s = (r, s0)"
    by (cases "flush_loop (user_metrics s) [] [] s")
  have "r \<noteq> Inl RequestFailed"
    using flush_loop_error [of "user_metrics s" "[]" "[]" s] l by simp
  with assms l obtain data ids where r: "r = Inr (data, ids)"
    by (cases r) (auto simp: flush_metrics_to_remote_def)
  with l have s0: "s0 = s" by (auto dest: flush_loop_state)
  from assms l r s0 have s1: "s1 = s\<lparr>requests := requests s @ [data]\<rparr>"
    by (simp add: flush_metrics_to_remote_def)
  have l1: "flush_loop (user_metrics s1) [] [] s1 = (Inr (data, ids), s1)"
    unfolding s1 using l r s0 by (simp add: flush_loop_requests)
  have again: "requests (snd (flush_metrics_to_remote delivered s1)) = requests s1 @ [data]"
    for delivered
    using l1 by (simp add: flush_metrics_to_remote_def reset_loop_frame Let_def)
  have "last (requests s1) = data" by (simp add: s1)
  with s1 again show ?thesis by simp
qed

text \<open>The theorem at the example state in which the second tenant has uploaded 100.\<close>

theorem flush_failure_keeps_metrics_witness:
  "flush_metrics_to_remote False bob_busy =
     (Inl RequestFailed, bob_busy\<lparr>requests :=
        [[\<lparr>r_user_id = 2, r_upload_traffic = 100, r_download_traffic = 0, r_ip_list = {},
           r_tcp_conn_num = 0\<rparr>]]\<rparr>)
   \<and> user_metrics (snd (flush_metrics_to_remote False bob_busy)) = user_metrics bob_busy
   \<and> requests (snd (flush_metrics_to_remote False (snd (flush_metrics_to_remote False bob_busy)))) =
      [[\<lparr>r_user_id = 2, r_upload_traffic = 100, r_download_traffic = 0, r_ip_list = {},
           r_tcp_conn_num = 0\<rparr>],
       [\<lparr>r_user_id = 2, r_upload_traffic = 100, r_download_traffic = 0, r_ip_list = {},
           r_tcp_conn_num = 0\<rparr>]]"
proof -
  have f: "flush_metrics_to_remote False bob_busy =
     (Inl RequestFailed, bob_busy\<lparr>requests :=
        [[\<lparr>r_user_id = 2, r_upload_traffic = 100, r_download_traffic = 0, r_ip_list = {},
           r_tcp_conn_num = 0\<rparr>]]\<rparr>)"
    by (simp add: flush_metrics_to_remote_def bob_busy_eq both_live_eq init_new_metric_def
        get_by_id_def tcp_limiter_get_def user_limiters_getitem_def TcpConnRateLimit_def
        example_defs)
  have r: "requests bob_busy = []"
    by (simp add: bob_busy_eq both_live_eq)
  from flush_failure_keeps_metrics [OF f] f r show ?thesis
    by simp
qed

lemma reports_user_ids:
  "list_all2 (is_report_of s) rs items \<Longrightarrow> map r_user_id rs = map fst items"
  by (induction rs items rule: list_all2_induct) (simp_all add: is_report_of_def)

lemma flushed_ids_lookup:
  assumes "distinct (map fst al)"
  shows "u \<in> set (map fst (filter (\<lambda>(u, m). has_traffic m) al)) \<longleftrightarrow>
         (\<exists>m. map_of al u = Some m \<and> has_traffic m)"
  using assms by (auto simp: image_iff)

text \<open>
  Claim C3. When \<open>flush_metrics_to_remote\<close> returns, the body it posted has one report for
  each item of \<open>__user_metrics__\<close> with positive traffic, in order, with that item's id,
  counters and addresses, and no other report; the active ids are exactly those ids; the
  keys of \<open>__user_metrics__\<close> are the same as before; the metrics of every reported tenant
  are the ones of \<open>init_new_metric()\<close> and those of every other tenant are unchanged.
\<close>

theorem flush_success_reports_and_resets:
  assumes "flush_metrics_to_remote True s = (Inr (), s')"
  shows "requests s' = requests s @ [last (requests s')]
     \<and> list_all2 (is_report_of s) (last (requests s'))
          (filter (\<lambda>(u, m). has_traffic m) (user_metrics s))
     \<and> map r_user_id (last (requests s')) = flushed_ids s
     \<and> active_user_ids s' = flushed_ids s
     \<and> map fst (user_metrics s') = map fst (user_metrics s)
     \<and> (\<forall>u. map_of (user_metrics s') u =
            (if u \<in> set (flushed_ids s) then Some init_new_metric else map_of (user_metrics s) u))
     \<and> (distinct (map fst (user_metrics s)) \<longrightarrow>
          (\<forall>u. u \<in> set (flushed_ids s) \<longleftrightarrow>
                 (\<exists>m. map_of (user_metrics s) u = Some m \<and> has_traffic m)))"
proof -
  obtain r s0 where l: "flush_loop (user_metrics s) [] [] s = (r, s0)"
    by (cases "flush_loop (user_metrics s) [] [] s")
  with assms obtain data ids where r: "r = Inr (data, ids)"
    by (cases r) (auto simp: flush_metrics_to_remote_def)
  with l have s0: "s0 = s" by (auto dest: flush_loop_state)
  from flush_loop_result [of "user_metrics s" "[]" "[]" s data ids s0] l r
  have ids: "ids = flushed_ids s"
    and data: "list_all2 (is_report_of s) data (filter (\<lambda>(u, m). has_traffic m) (user_metrics s))"
    by (simp_all add: flushed_ids_def)
  from assms l r s0 have s': "s' = (reset_loop ids (s\<lparr>requests := requests s @ [data]\<rparr>))
      \<lparr>active_user_ids := ids\<rparr>"
    by (simp add: flush_metrics_to_remote_def)
  have req: "requests s' = requests s @ [data]"
    by (simp add: s' reset_loop_eq)
  have sub: "set ids \<subseteq> fst ` set (user_metrics s)"
    by (auto simp: ids flushed_ids_def)
  have keys: "map fst (user_metrics s') = map fst (user_metrics s)"
    using keys_reset [OF sub] by (simp add: s' reset_loop_eq)
  have look: "\<forall>u. map_of (user_metrics s') u =
            (if u \<in> set (flushed_ids s) then Some init_new_metric else map_of (user_metrics s) u)"
    by (simp add: s' reset_loop_eq map_of_reset ids)
  have dist: "distinct (map fst (user_metrics s)) \<longrightarrow>
          (\<forall>u. u \<in> set (flushed_ids s) \<longleftrightarrow>
                 (\<exists>m. map_of (user_metrics s) u = Some m \<and> has_traffic m))"
    unfolding flushed_ids_def using flushed_ids_lookup [of "user_metrics s"] by blast
  have act: "active_user_ids s' = flushed_ids s"
    by (simp add: s' ids)
  from req data reports_user_ids [OF data] act keys look dist show ?thesis
    by (simp add: flushed_ids_def)
qed

text \<open>The theorem at the example state with two tenants, the first without traffic, the
  second with 100 uploaded.\<close>

theorem flush_success_reports_and_resets_witness:
  "flush_metrics_to_remote True bob_busy = (Inr (), bob_idle)
   \<and> distinct (map fst (user_metrics bob_busy))
   \<and> flushed_ids bob_busy = [2]
   \<and> map_of (user_metrics bob_busy) 1 = Some init_new_metric
   \<and> map_of (user_metrics bob_busy) 2 =
        Some \<lparr>upload_traffic = Some 100, download_traffic = Some 0, ip_list = Some {}\<rparr>
   \<and> active_user_ids bob_idle = [2]
   \<and> map fst (user_metrics bob_idle) = [1, 2]
   \<and> map_of (user_metrics bob_idle) 2 = Some init_new_metric
   \<and> map r_user_id (last (requests bob_idle)) = [2]"
proof -
  have ids: "flushed_ids bob_busy = [2]"
    by (simp add: flushed_ids_def bob_busy_eq has_traffic_def init_new_metric_def)
  have before: "distinct (map fst (user_metrics bob_busy))"
    "map_of (user_metrics bob_busy) 1 = Some init_new_metric"
    "map_of (user_metrics bob_busy) 2 =
        Some \<lparr>upload_traffic = Some 100, download_traffic = Some 0, ip_list = Some {}\<rparr>"
    "map fst (user_metrics bob_busy) = [1, 2]"
    by (simp_all add: bob_busy_eq)
  from flush_success_reports_and_resets [OF bob_flush_result] ids before bob_flush_result
  show ?thesis by simp
qed

text \<open>After \<open>record_traffic\<close> on a tenant that was never started (it raises \<open>KeyError\<close> and
  leaves an empty metrics dict), no tenant has positive traffic, yet
  \<open>flush_metrics_to_remote\<close> raises \<open>KeyError\<close> at the empty dict: it posts no request and the
  active ids stay \<open>[2]\<close>. And when the request is posted but not delivered, the active
  ids stay as well.\<close>

theorem flush_raises_on_empty_metrics:
  "fst (record_traffic 3 10 20 bob_idle) = Inl KeyError
   \<and> list_all (\<lambda>(u, m). \<not> has_traffic m) (user_metrics bob_idle_unstarted)
   \<and> active_user_ids bob_idle_unstarted = [2]
   \<and> flush_metrics_to_remote True bob_idle_unstarted = (Inl KeyError, bob_idle_unstarted)
   \<and> flush_metrics_to_remote False bob_idle =
        (Inl RequestFailed, bob_idle\<lparr>requests := requests bob_idle @ [[]]\<rparr>)
   \<and> active_user_ids bob_idle = [2]"
proof -
  have a: "fst (record_traffic 3 10 20 bob_idle) = Inl KeyError"
    by (simp add: bob_idle_eq both_live_eq record_traffic_def metrics_def empty_metric_def)
  have b: "list_all (\<lambda>(u, m). \<not> has_traffic m) (user_metrics bob_idle_unstarted)"
    by (simp add: bob_idle_unstarted_eq has_traffic_def empty_metric_def init_new_metric_def)
  have c: "active_user_ids bob_idle_unstarted = [2]" "active_user_ids bob_idle = [2]"
    by (simp_all add: bob_idle_unstarted_eq bob_idle_eq)
  have d: "flush_metrics_to_remote True bob_idle_unstarted = (Inl KeyError, bob_idle_unstarted)"
    by (simp add: flush_metrics_to_remote_def bob_idle_unstarted_eq empty_metric_def
        init_new_metric_def)
  have e: "flush_metrics_to_remote False bob_idle =
        (Inl RequestFailed, bob_idle\<lparr>requests := requests bob_idle @ [[]]\<rparr>)"
    by (simp add: flush_metrics_to_remote_def bob_idle_eq both_live_eq init_new_metric_def)
  from a b c d e show ?thesis by blast
qed

text \<open>
  Claim C10, amended. When every metrics dict holds both counters and none has positive
  traffic, \<open>flush_metrics_to_remote\<close> posts one request, whose data list is empty, whether
  or not the request is delivered; when it is delivered the call returns, the active ids
  are empty and nothing else has changed, and \<open>get_total_connection_count\<close> then returns 0.
\<close>

theorem flush_without_traffic:
  assumes "list_all (\<lambda>(u, m). no_traffic m) (user_metrics s)"
  shows "requests (snd (flush_metrics_to_remote delivered s)) = requests s @ [[]]
     \<and> flush_metrics_to_remote True s =
         (Inr (), s\<lparr>requests := requests s @ [[]], active_user_ids := []\<rparr>)
     \<and> get_total_connection_count (snd (flush_metrics_to_remote True s)) =
         (Inr 0, snd (flush_metrics_to_remote True s))"
proof -
  have l: "flush_loop (user_metrics s) [] [] s = (Inr ([], []), s)"
    using assms by (rule flush_loop_no_traffic)
  have t: "flush_metrics_to_remote True s =
         (Inr (), s\<lparr>requests := requests s @ [[]], active_user_ids := []\<rparr>)"
    by (simp add: flush_metrics_to_remote_def l)
  have r: "requests (snd (flush_metrics_to_remote delivered s)) = requests s @ [[]]"
    by (simp add: flush_metrics_to_remote_def l Let_def)
  have c: "get_total_connection_count (snd (flush_metrics_to_remote True s)) =
         (Inr 0, snd (flush_metrics_to_remote True s))"
    by (simp add: t get_total_connection_count_def)
  from t r c show ?thesis by blast
qed

text \<open>The theorem at the example state after a delivered flush, where the active ids are
  \<open>[2]\<close> and all counters are zero.\<close>

theorem flush_without_traffic_witness:
  "list_all (\<lambda>(u, m). no_traffic m) (user_metrics bob_idle)
   \<and> active_user_ids bob_idle = [2]
   \<and> requests (snd (flush_metrics_to_remote False bob_idle)) = requests bob_idle @ [[]]
   \<and> flush_metrics_to_remote True bob_idle =
        (Inr (), bob_idle\<lparr>requests := requests bob_idle @ [[]], active_user_ids := []\<rparr>)
   \<and> fst (get_total_connection_count (snd (flush_metrics_to_remote True bob_idle))) = Inr 0"
proof -
  have h: "list_all (\<lambda>(u, m). no_traffic m) (user_metrics bob_idle)"
    by (simp add: bob_idle_eq both_live_eq no_traffic_def init_new_metric_def)
  have a: "active_user_ids bob_idle = [2]"
    by (simp add: bob_idle_eq)
  from flush_without_traffic [OF h, of False] h a show ?thesis by auto
qed

end
